theory Spec2Isabelle
  imports Main "HOL-Library.Word"
begin

unbundle bit_operations_syntax

section \<open>Embedding of the tumbler sources\<close>

subsection \<open>Outcomes of a Go call\<close>

text \<open>
  A Go function of this repository either returns normally, returns a non-nil
  \<^verbatim>\<open>error\<close>, or panics (an explicit \<^verbatim>\<open>panic\<close>, an index out of range, a nil
  dereference).  The three are kept apart.
\<close>

datatype panic =
    IndexOutOfRange
  | NilDereference
  | DivideByZero
  | PanicMsg string

datatype error =
    ErrNotReady string string
  | ErrFinalStage string
  | ErrBadBlockHeight "32 word"
  | ErrNoCurrentEpoch
  | ErrEpochNotFound
  | ErrEpochTooOld "32 word"
  | ErrMsg string
  | ErrWrap string error

datatype 'a res = Ok 'a | Err error | Panic panic

type_synonym bytes = "8 word list"

type_synonym time = int

subsection \<open>Session states (session.go)\<close>

definition StateInitial :: int where "StateInitial = 0"
definition StateEscrowComplete :: int where "StateEscrowComplete = 1"
definition StatePuzzlesPromised :: int where "StatePuzzlesPromised = 2"
definition StatePuzzlesValidated :: int where "StatePuzzlesValidated = 3"
definition StateEscrowPublished :: int where "StateEscrowPublished = 4"
definition MaxPayeeState :: int where "MaxPayeeState = 5"
definition StateSolutionsPromised :: int where "StateSolutionsPromised = 6"
definition StateSolutionsValidated :: int where "StateSolutionsValidated = 7"
definition StateOfferReceived :: int where "StateOfferReceived = 8"
definition StateSolutionPublished :: int where "StateSolutionPublished = 9"
definition MaxPayerState :: int where "MaxPayerState = 10"

lemmas state_defs =
  StateInitial_def StateEscrowComplete_def StatePuzzlesPromised_def
  StatePuzzlesValidated_def StateEscrowPublished_def MaxPayeeState_def
  StateSolutionsPromised_def StateSolutionsValidated_def StateOfferReceived_def
  StateSolutionPublished_def MaxPayerState_def

definition stateNames :: "string list" where
  "stateNames =
    [''InitialState'', ''EscrowComplete'', ''PuzzlesPromised'', ''PuzzlesValidated'',
     ''EscrowPublished'', ''MaxPayeeState'', ''SolutionsPromised'', ''SolutionsValidated'',
     ''OfferReceived'', ''SolutionPublished'', ''MaxPayerState'']"

text \<open>Indexing a Go array or slice with an \<^verbatim>\<open>int\<close>: out of range panics.\<close>

definition index :: "'a list \<Rightarrow> int \<Rightarrow> 'a res" where
  "index xs i = (if 0 \<le> i \<and> i < int (length xs) then Ok (xs ! nat i) else Panic IndexOutOfRange)"


definition bind :: "'a res \<Rightarrow> ('a \<Rightarrow> 'b res) \<Rightarrow> 'b res" where
  "bind r f = (case r of Ok x \<Rightarrow> f x | Err e \<Rightarrow> Err e | Panic p \<Rightarrow> Panic p)"

subsection \<open>Puzzle keys (puzzle/key.go, over crypto/rsa)\<close>

text \<open>
  \<^verbatim>\<open>rsa.PrivateKey\<close> with its \<^verbatim>\<open>Precomputed\<close> values; \<^verbatim>\<open>Precomputed.Dp == nil\<close>
  is \<open>Precomputed = None\<close>.  Public exponents are positive in every key that
  crypto/rsa generates or crypto/x509 parses, and the CRT exponents are residues, so
  exponents are naturals.
\<close>

record CRTValue =
  crt_Exp :: nat
  crt_Coeff :: int
  crt_R :: int

record PrecomputedValues =
  Dp :: nat
  Dq :: nat
  Qinv :: int
  CRTValues :: "CRTValue list"

record PrivateKey =
  rsa_N :: int
  rsa_E :: nat
  rsa_D :: nat
  Primes :: "int list"
  Precomputed :: "PrecomputedValues option"

record PuzzleKey =
  rsakey :: PrivateKey
  pk_factor :: int
  pk_inverse :: int

record PuzzlePubKey =
  pub_E :: nat
  pub_N :: int

definition PublicKey :: "PuzzleKey \<Rightarrow> PuzzlePubKey" where
  "PublicKey pk = \<lparr>pub_E = rsa_E (rsakey pk), pub_N = rsa_N (rsakey pk)\<rparr>"

subsection \<open>Contracts (contract/contract.go)\<close>

datatype addressKind =
    AddressEdwardsPubKey
  | AddressSecpPubKey
  | AddressPubKeyHash bool
  | AddressSecSchnorrPubKey
  | AddressScriptHash
  | AddressOther

text \<open>
  A decoded \<^verbatim>\<open>dcrutil.Address\<close>: its concrete type (for a pubkey hash, whether its
  DSA is secp256k1), and what its methods \<^verbatim>\<open>Address()\<close>, \<^verbatim>\<open>EncodeAddress()\<close> and
  \<^verbatim>\<open>ScriptAddress()\<close> return.
\<close>

record address =
  addr_kind :: addressKind
  addr_Address :: string
  addr_EncodeAddress :: string
  addr_ScriptAddress :: bytes

record Contract =
  SenderAddr :: "address option"
  SenderAddrStr :: string
  SenderScriptAddr :: bytes
  ReceiverAddr :: "address option"
  ReceiverAddrStr :: string
  ReceiverScriptAddr :: bytes
  EscrowBytes :: bytes
  EscrowAddrStr :: string
  EscrowScript :: bytes
  EscrowHash :: bytes
  RefundAddr :: "address option"
  RefundAddrStr :: string
  RefundScriptAddr :: bytes
  RedeemAddr :: "address option"
  RedeemAddrStr :: string
  RedeemScriptAddr :: bytes
  Amount :: int
  LockTime :: "32 word"

subsection \<open>External collaborators\<close>

text \<open>
  What the sources call outside the repository.  Calls whose answer can change from
  one call to the next (the random source, the wallet, the clock, key generation) take
  the number of external calls made so far, so that any sequence of answers is an
  instance; the hash functions, the address decoder, the key marshaller and
  \<^verbatim>\<open>big.Int.GCD\<close> are functions of their arguments.  A wallet call gets the contract
  and returns it as the call left it.
\<close>

record Env =
  rand_Int :: "nat \<Rightarrow> int \<Rightarrow> error + int"
  rand_Read :: "nat \<Rightarrow> nat \<Rightarrow> error + bytes"
  rsa_GenerateMultiPrimeKey :: "nat \<Rightarrow> int \<Rightarrow> int \<Rightarrow> error + PrivateKey"
  big_GCD :: "int \<Rightarrow> int \<Rightarrow> int \<times> int \<times> int"
  x509_MarshalPKIXPublicKey :: "PuzzlePubKey \<Rightarrow> error + bytes"
  blake2s_NewXOF :: "nat \<Rightarrow> bytes \<Rightarrow> bytes \<Rightarrow> error + bytes"
  blake2s_New256 :: "bytes \<Rightarrow> bytes \<Rightarrow> error + bytes"
  chainhash_HashB :: "bytes \<Rightarrow> bytes"
  DecodeAddress :: "string \<Rightarrow> error + address"
  time_Now :: "nat \<Rightarrow> time"
  wallet_CreateEscrow :: "nat \<Rightarrow> Contract \<Rightarrow> Contract \<times> error option"
  wallet_PublishEscrow :: "nat \<Rightarrow> Contract \<Rightarrow> Contract \<times> error option"
  wallet_ImportEscrowScript :: "nat \<Rightarrow> Contract \<Rightarrow> Contract \<times> error option"
  wallet_ValidateOffer :: "nat \<Rightarrow> Contract \<Rightarrow> bytes \<Rightarrow> Contract \<times> bool \<times> error option"
  wallet_PublishSolution :: "nat \<Rightarrow> Contract \<Rightarrow> bytes list \<Rightarrow> Contract \<times> error option"
  wallet_GetExtAddress :: "nat \<Rightarrow> error + string \<times> string"

subsection \<open>Big integers (math/big as the sources use it)\<close>

text \<open>\<^verbatim>\<open>Bytes\<close>: the absolute value, big-endian, without leading zero bytes.\<close>

function nat_to_bytes :: "nat \<Rightarrow> bytes" where
  "nat_to_bytes n = (if n = 0 then [] else nat_to_bytes (n div 256) @ [of_nat (n mod 256)])"
  by pat_completeness auto
termination
  by (relation "measure id") auto

declare nat_to_bytes.simps [simp del]

definition Bytes :: "int \<Rightarrow> bytes" where
  "Bytes x = nat_to_bytes (nat \<bar>x\<bar>)"

definition SetBytes :: "bytes \<Rightarrow> int" where
  "SetBytes bs = foldl (\<lambda>acc b. acc * 256 + uint b) 0 bs"

text \<open>
  \<^verbatim>\<open>Exp(x, y, m)\<close> for an exponent \<open>y \<ge> 0\<close>: \<open>x ^ y\<close> when \<open>m = 0\<close>, else reduced
  into \<open>[0, |m|)\<close>.  \<^verbatim>\<open>Mod(x, m)\<close> is the Euclidean modulus and panics when \<open>m = 0\<close>.
\<close>

definition bigExp :: "int \<Rightarrow> nat \<Rightarrow> int \<Rightarrow> int" where
  "bigExp x y m = (if m = 0 then x ^ y else x ^ y mod \<bar>m\<bar>)"

definition bigMod :: "int \<Rightarrow> int \<Rightarrow> int res" where
  "bigMod x m = (if m = 0 then Panic DivideByZero else Ok (x mod \<bar>m\<bar>))"

subsection \<open>Puzzles (puzzle/puzzle.go)\<close>

definition createPuzzle :: "PuzzlePubKey \<Rightarrow> int \<Rightarrow> bytes" where
  "createPuzzle pk secret = Bytes (bigExp secret (pub_E pk) (pub_N pk))"

definition ValidatePuzzle :: "PuzzlePubKey \<Rightarrow> bytes \<Rightarrow> bytes \<Rightarrow> bool" where
  "ValidatePuzzle pk puzzle secret =
    (let bigSecret = SetBytes secret in
     if bigSecret \<ge> pub_N pk then False
     else createPuzzle pk bigSecret = puzzle)"

definition UnblindPuzzle :: "PuzzlePubKey \<Rightarrow> bytes \<Rightarrow> bytes \<Rightarrow> bytes res" where
  "UnblindPuzzle pk p r =
    bind (bigMod (SetBytes p * SetBytes r) (pub_N pk)) (\<lambda>bigP. Ok (Bytes bigP))"

definition ValidateBlindedPuzzle ::
  "PuzzlePubKey \<Rightarrow> bytes \<Rightarrow> bytes \<Rightarrow> bytes \<Rightarrow> bool res" where
  "ValidateBlindedPuzzle pk blinding puzzle secret =
    (let bigSecret = SetBytes secret in
     if bigSecret \<ge> pub_N pk then Ok False
     else bind (UnblindPuzzle pk puzzle (createPuzzle pk bigSecret))
            (\<lambda>check. Ok (check = blinding)))"

text \<open>
  \<^verbatim>\<open>cryptWithXOF\<close>: the keystream is what the XOF, keyed with the first \<open>klen\<close> bytes
  of the secret and fed the rest, yields for the requested length; the buffer it is
  read into has the input's length.
\<close>

definition cryptWithXOF :: "Env \<Rightarrow> bytes \<Rightarrow> bytes \<Rightarrow> bytes res" where
  "cryptWithXOF env input secret =
    (if length input > 65535 then Err (ErrMsg ''input too long'')
     else
       let klen = (if length secret < 32 then length secret else 32) in
       case blake2s_NewXOF env (length input) (take klen secret) (drop klen secret) of
         Inl e \<Rightarrow> Err e
       | Inr ks \<Rightarrow>
           let keystream = take (length input) (ks @ replicate (length input) 0)
           in Ok (map2 (\<lambda>k i. k XOR i) keystream input))"

definition createPromise :: "Env \<Rightarrow> bytes \<Rightarrow> bytes \<Rightarrow> bytes res" where
  "createPromise env data secret = cryptWithXOF env data secret"

text \<open>\<^verbatim>\<open>rand.Int\<close> panics on a bound that is not positive.\<close>

definition randInt :: "Env \<Rightarrow> nat \<Rightarrow> int \<Rightarrow> int res" where
  "randInt env w bound =
    (if bound \<le> 0 then Panic (PanicMsg ''crypto/rand: argument to Int is <= 0'')
     else case rand_Int env w bound of Inl e \<Rightarrow> Err e | Inr r \<Rightarrow> Ok r)"

definition NewPuzzlePromise ::
  "Env \<Rightarrow> nat \<Rightarrow> PuzzleKey \<Rightarrow> bytes \<Rightarrow> (bytes \<times> bytes \<times> bytes) res" where
  "NewPuzzlePromise env w pk sig =
    (case randInt env w (rsa_N (rsakey pk)) of
       Panic p \<Rightarrow> Panic p
     | Err e \<Rightarrow> Err (ErrWrap ''failed to generate a puzzle secret'' e)
     | Ok secret \<Rightarrow>
         let puzzle = createPuzzle (PublicKey pk) secret in
         (case createPromise env sig (Bytes secret) of
            Panic p \<Rightarrow> Panic p
          | Err e \<Rightarrow> Err (ErrWrap ''failed to create puzzle promise'' e)
          | Ok promise \<Rightarrow> Ok (puzzle, promise, Bytes secret)))"

definition modInverse :: "Env \<Rightarrow> int \<Rightarrow> int \<Rightarrow> int option" where
  "modInverse env a n =
    (case big_GCD env a n of
       (g, x, y) \<Rightarrow> if g \<noteq> 1 then None else Some (if x < 1 then x + n else x))"

text \<open>
  \<^verbatim>\<open>newBlindingFactor\<close> loops until the random source yields a non-zero value that
  is invertible; \<open>None\<close> is the loop that never ends.  The result comes with the count
  of external calls made.
\<close>

partial_function (option) newBlindingFactor ::
  "Env \<Rightarrow> int \<Rightarrow> nat \<Rightarrow> ((int \<times> int) res \<times> nat) option" where
  "newBlindingFactor env n w =
    (case randInt env w n of
       Panic p \<Rightarrow> Some (Panic p, Suc w)
     | Err e \<Rightarrow> Some (Err e, Suc w)
     | Ok r \<Rightarrow>
         if r = 0 then newBlindingFactor env n (Suc w)
         else (case modInverse env r n of
                 Some ir \<Rightarrow> Some (Ok (r, ir), Suc w)
               | None \<Rightarrow> newBlindingFactor env n (Suc w)))"

fun crt_loop :: "int list \<Rightarrow> int \<Rightarrow> CRTValue list \<Rightarrow> nat \<Rightarrow> int \<Rightarrow> int res" where
  "crt_loop ps c [] i m = Ok m"
| "crt_loop ps c (v # vs) i m =
    bind (index ps (2 + int i)) (\<lambda>prime.
      let m2 = bigExp c (crt_Exp v) prime;
          m2 = m2 - m;
          m2 = m2 * crt_Coeff v
      in bind (bigMod m2 prime) (\<lambda>m2.
           let m2 = (if m2 < 0 then m2 + prime else m2);
               m2 = m2 * crt_R v
           in crt_loop ps c vs (Suc i) (m + m2)))"

definition decryptPuzzle :: "PuzzleKey \<Rightarrow> int \<Rightarrow> int res" where
  "decryptPuzzle pk c =
    (let priv = rsakey pk in
     if c > rsa_N priv then Err (ErrMsg ''value too large'')
     else
       let rpowe = bigExp (pk_factor pk) (rsa_E priv) (rsa_N priv) in
       bind (bigMod (c * rpowe) (rsa_N priv)) (\<lambda>c.
       bind (case Precomputed priv of
               None \<Rightarrow> Ok (bigExp c (rsa_D priv) (rsa_N priv))
             | Some pre \<Rightarrow>
                 bind (index (Primes priv) 0) (\<lambda>p.
                 bind (index (Primes priv) 1) (\<lambda>q.
                   let m = bigExp c (Dp pre) p;
                       m2 = bigExp c (Dq pre) q;
                       m = m - m2;
                       m = (if m < 0 then m + p else m);
                       m = m * Qinv pre
                   in bind (bigMod m p) (\<lambda>m.
                        let m = m * q;
                            m = m + m2
                        in crt_loop (Primes priv) c (CRTValues pre) 0 m))))
            (\<lambda>m. bigMod (m * pk_inverse pk) (rsa_N priv))))"

definition SolvePuzzle :: "PuzzleKey \<Rightarrow> bytes \<Rightarrow> bytes res" where
  "SolvePuzzle pk p =
    bind (decryptPuzzle pk (SetBytes p)) (\<lambda>m.
      let check = createPuzzle (PublicKey pk) m in
      if check \<noteq> p then Err (ErrMsg ''error in the CRT computation'')
      else Ok (Bytes m))"

definition NewSolutionPromise ::
  "Env \<Rightarrow> nat \<Rightarrow> PuzzleKey \<Rightarrow> bytes \<Rightarrow> (bytes \<times> bytes \<times> bytes) res" where
  "NewSolutionPromise env w pk p =
    (case rand_Read env w 20 of
       Inl e \<Rightarrow> Err e
     | Inr secret \<Rightarrow>
         (case SolvePuzzle pk p of
            Panic pn \<Rightarrow> Panic pn
          | Err e \<Rightarrow> Err (ErrWrap ''failed to solve the puzzle'' e)
          | Ok solution \<Rightarrow>
              (case createPromise env solution secret of
                 Panic pn \<Rightarrow> Panic pn
               | Err e \<Rightarrow> Err (ErrWrap ''failed to create solution promise'' e)
               | Ok promise \<Rightarrow> Ok (solution, promise, secret))))"

text \<open>
  \<^verbatim>\<open>Quotients\<close>: \<open>quotients[0] = 1\<close> panics on an empty slice; then, for each secret
  after the first, the quotient by its predecessor.  The loop over \<open>i\<close> is the
  recursion over the rest of the list, the predecessor carried along.
\<close>

fun quotients_loop :: "Env \<Rightarrow> PuzzlePubKey \<Rightarrow> bytes \<Rightarrow> bytes list \<Rightarrow> bytes list res" where
  "quotients_loop env pk prev [] = Ok []"
| "quotients_loop env pk prev (s # ss) =
    (let a = SetBytes prev; b = SetBytes s in
     case modInverse env a (pub_N pk) of
       None \<Rightarrow> Err (ErrMsg ''malformed secret'')
     | Some ai \<Rightarrow>
         bind (bigMod (b * ai) (pub_N pk)) (\<lambda>q.
         bind (quotients_loop env pk s ss) (\<lambda>qs. Ok (Bytes q # qs))))"

definition Quotients :: "Env \<Rightarrow> PuzzlePubKey \<Rightarrow> bytes list \<Rightarrow> bytes list res" where
  "Quotients env pk secrets =
    (case secrets of
       [] \<Rightarrow> Panic IndexOutOfRange
     | s0 # rest \<Rightarrow> bind (quotients_loop env pk s0 rest) (\<lambda>qs. Ok (Bytes 1 # qs)))"

fun verify_secrets_loop ::
  "PuzzlePubKey \<Rightarrow> bytes list \<Rightarrow> bytes list \<Rightarrow> nat \<Rightarrow> int \<Rightarrow> bool res" where
  "verify_secrets_loop pk [] secrets i prd = Ok True"
| "verify_secrets_loop pk (q # qs) secrets i prd =
    bind (bigMod (prd * SetBytes q) (pub_N pk)) (\<lambda>prd.
    bind (index secrets (int i)) (\<lambda>si.
      if si \<noteq> Bytes prd then Ok False
      else verify_secrets_loop pk qs secrets (Suc i) prd))"

definition VerifyQuotientsWithSecrets ::
  "PuzzlePubKey \<Rightarrow> bytes list \<Rightarrow> bytes list \<Rightarrow> bool res" where
  "VerifyQuotientsWithSecrets pk qs secrets =
    bind (index secrets 0) (\<lambda>s0. verify_secrets_loop pk qs secrets 0 (SetBytes s0))"

text \<open>The loop of \<^verbatim>\<open>VerifyQuotients\<close> from \<open>i\<close> on; \<open>qs\<close> are the quotients from \<open>i\<close> on.\<close>

fun verify_puzzles_loop ::
  "PuzzlePubKey \<Rightarrow> bytes list \<Rightarrow> bytes list \<Rightarrow> nat \<Rightarrow> bool res" where
  "verify_puzzles_loop pk [] puzzles i = Ok True"
| "verify_puzzles_loop pk (q # qs) puzzles i =
    bind (index puzzles (int i - 1)) (\<lambda>zprev.
      let z = SetBytes zprev;
          qe = bigExp (SetBytes q) (pub_E pk) (pub_N pk)
      in bind (bigMod (z * qe) (pub_N pk)) (\<lambda>z.
         bind (index puzzles (int i)) (\<lambda>zi.
           if zi \<noteq> Bytes z then Ok False
           else verify_puzzles_loop pk qs puzzles (Suc i))))"

definition VerifyQuotients :: "PuzzlePubKey \<Rightarrow> bytes list \<Rightarrow> bytes list \<Rightarrow> bool res" where
  "VerifyQuotients pk qs puzzles = verify_puzzles_loop pk (drop 1 qs) puzzles 1"

subsection \<open>Key generation (puzzle/key.go)\<close>

definition GeneratePuzzleKey :: "Env \<Rightarrow> int \<Rightarrow> nat \<Rightarrow> (PuzzleKey res \<times> nat) option" where
  "GeneratePuzzleKey env difficulty w =
    (let nprimes = (if difficulty \<ge> 8192 then 5 else if difficulty \<ge> 4096 then 4
                    else if difficulty \<ge> 1024 then 3 else 2) in
     case rsa_GenerateMultiPrimeKey env w nprimes difficulty of
       Inl e \<Rightarrow> Some (Err e, Suc w)
     | Inr key \<Rightarrow>
         (case newBlindingFactor env (rsa_N key) (Suc w) of
            None \<Rightarrow> None
          | Some (Panic p, w') \<Rightarrow> Some (Panic p, w')
          | Some (Err e, w') \<Rightarrow> Some (Err e, w')
          | Some (Ok (f, fi), w') \<Rightarrow>
              Some (Ok \<lparr>rsakey = key, pk_factor = f, pk_inverse = fi\<rparr>, w')))"

subsection \<open>Index lists (puzzle/puzzlelist.go, puzzle/fake.go)\<close>

definition putUint16 :: "16 word \<Rightarrow> bytes" where
  "putUint16 v = [ucast v, ucast (drop_bit 8 v)]"

definition getUint16 :: "8 word \<Rightarrow> 8 word \<Rightarrow> 16 word" where
  "getUint16 b0 b1 = ucast b0 OR push_bit 8 (ucast b1)"

text \<open>
  \<^verbatim>\<open>EncodeIndexList\<close>: Go's \<open>int\<close> is taken as an unbounded integer (only the
  comparisons with 0 and 65535 matter).  Writing to a \<^verbatim>\<open>bytes.Buffer\<close> does not fail.
\<close>

fun EncodeIndexList :: "int list \<Rightarrow> bytes res" where
  "EncodeIndexList [] = Ok []"
| "EncodeIndexList (i # rest) =
    (if i < 0 \<or> i > 65535 then Err (ErrMsg ''index out of bounds'')
     else bind (EncodeIndexList rest) (\<lambda>bs. Ok (putUint16 (word_of_int i) @ bs)))"

text \<open>
  The reading loop of \<^verbatim>\<open>DecodeIndexList\<close>: \<^verbatim>\<open>binary.Read\<close> of two bytes gives
  \<^verbatim>\<open>io.EOF\<close> on an empty buffer and \<^verbatim>\<open>io.ErrUnexpectedEOF\<close> on a single byte.
\<close>

fun decode_loop :: "bytes \<Rightarrow> int list res" where
  "decode_loop [] = Ok []"
| "decode_loop [b] = Err (ErrMsg ''unexpected EOF'')"
| "decode_loop (b0 # b1 # bs) = bind (decode_loop bs) (\<lambda>r. Ok (uint (getUint16 b0 b1) # r))"

definition DecodeIndexList :: "bytes \<Rightarrow> int list res" where
  "DecodeIndexList indexList =
    (if length indexList mod 2 \<noteq> 0 then Err (ErrMsg ''bad list length'')
     else decode_loop indexList)"

definition HashIndexList :: "Env \<Rightarrow> bytes \<Rightarrow> int list \<Rightarrow> bytes res" where
  "HashIndexList env salt indexList =
    bind (EncodeIndexList indexList) (\<lambda>buf.
      case blake2s_New256 env salt buf of Inl e \<Rightarrow> Err e | Inr digest \<Rightarrow> Ok digest)"

definition FakeTxFormat :: "Env \<Rightarrow> bytes \<Rightarrow> bytes" where
  "FakeTxFormat env randomPad =
    chainhash_HashB env ([102, 97, 107, 101, 102, 97, 107, 101, 102, 97, 107, 101] @ randomPad)"

subsection \<open>Sessions and the tumbler (tumbler/session.go, tumbler/tumbler.go)\<close>

record PaymentOfferT =
  po_Amount :: int
  po_PublicKey :: string
  po_EscrowHash :: bytes
  po_EscrowScript :: bytes
  po_EscrowTx :: bytes
  po_Puzzle :: bytes
  po_RealPuzzleList :: bytes
  po_RealFactors :: "bytes list"

text \<open>
  A session is identified by its cookie; \<open>explist\<close> says whether the session holds an
  element of the tumbler's pending list (\<^verbatim>\<open>s.explist != nil\<close>).  The back pointer
  \<^verbatim>\<open>s.tb\<close> is the tumbler passed along with the session.
\<close>

record Session =
  sersema :: "32 word"
  finsema :: "32 word"
  Cookie :: bytes
  explist :: bool
  expire :: time
  deadline :: time
  address :: string
  epoch :: "32 word"
  contract :: "Contract option"
  state :: int
  err :: "error option"
  puzzles :: "bytes list"
  secrets :: "bytes list"
  solutions :: "bytes list"
  txHashes :: "bytes list"
  realSetHash :: bytes
  fakeSetHash :: bytes
  realPuzzleList :: "int list"

record Epoch =
  ep_Address :: string
  ep_Pubkey :: string
  BlockHeight :: "32 word"
  puzzleKey :: PuzzleKey

text \<open>
  The only callback ever deferred is the closure around \<^verbatim>\<open>validateOffer\<close>, so a
  deferred action keeps the session's cookie, the offer and the instant.
\<close>

record deferredAction =
  da_session :: bytes
  da_argument :: PaymentOfferT
  da_until :: time

text \<open>
  \<open>epochs\<close> is a slice of pointers: an entry can be nil.  \<open>disconnect_log\<close> is not a
  field of the source: it records each run of \<^verbatim>\<open>Disconnect\<close> (by cookie), so that
  how often cleanup ran can be stated.
\<close>

record Tumbler =
  lastEpoch :: "32 word"
  epochs :: "Epoch option list"
  sessions :: "bytes set"
  actions :: "deferredAction list"
  pending :: "bytes list"
  epochDuration :: "32 word"
  epochRenewal :: "32 word"
  puzzleDifficulty :: int
  disconnect_log :: "bytes list"

definition ready :: "Session \<Rightarrow> int \<Rightarrow> unit res" where
  "ready s next =
    (if state s = StateInitial \<and> (next = StateEscrowComplete \<or> next = StateSolutionsPromised)
       then Ok ()
     else if state s = StateEscrowPublished \<or> state s = StateSolutionPublished
       then bind (index stateNames next) (\<lambda>n. Err (ErrFinalStage n))
     else if state s \<noteq> StateInitial \<and> next = state s + 1
       then Ok ()
     else bind (index stateNames next) (\<lambda>n.
          bind (index stateNames (state s)) (\<lambda>m. Err (ErrNotReady n m))))"

definition ReasonSuccess :: int where "ReasonSuccess = 0"
definition ReasonSessionExpired :: int where "ReasonSessionExpired = 1"
definition ReasonFailedExchange :: int where "ReasonFailedExchange = 2"
definition ReasonInternalError :: int where "ReasonInternalError = 3"

lemmas reason_defs =
  ReasonSuccess_def ReasonSessionExpired_def ReasonFailedExchange_def ReasonInternalError_def

definition reasonNames :: "string list" where
  "reasonNames =
    [''exchange was completed'', ''expiration timeout'', ''exchange error'', ''internal error'']"

text \<open>
  \<^verbatim>\<open>Session.String\<close>: the text is abridged (the cookie in hex and the expiry instant
  are left out); what is kept is when it panics, on \<^verbatim>\<open>stateNames[s.state]\<close>.
\<close>

definition String :: "Session \<Rightarrow> string res" where
  "String s =
    (if length (address s) = 0 then Ok ''not initialized''
     else bind (index stateNames (state s)) (\<lambda>n. Ok (address s @ '' state '' @ n)))"

definition removeDeferredActions :: "Tumbler \<Rightarrow> Session \<Rightarrow> Tumbler" where
  "removeDeferredActions tb s =
     tb\<lparr>actions := filter (\<lambda>a. da_session a \<noteq> Cookie s) (actions tb)\<rparr>"

definition Disconnect :: "Tumbler \<Rightarrow> Session \<Rightarrow> Tumbler \<times> Session" where
  "Disconnect tb s =
    (let tb1 = tb\<lparr>sessions := sessions tb - {Cookie s},
                   disconnect_log := disconnect_log tb @ [Cookie s]\<rparr>;
         tb2 = removeDeferredActions tb1 s
     in if explist s
        then (tb2\<lparr>pending := remove1 (Cookie s) (pending tb2)\<rparr>, s\<lparr>explist := False\<rparr>)
        else (tb2, s))"

text \<open>
  \<^verbatim>\<open>FinalizeExchange\<close> returns nothing; the model returns how the call ended together
  with the tumbler and the session as the call left them (also when it panics after
  \<^verbatim>\<open>Disconnect\<close>).  The compare-and-swap on \<open>finsema\<close> is one step.  The log line
  itself is not kept.
\<close>

definition FinalizeExchange ::
  "int \<Rightarrow> error option \<Rightarrow> Tumbler \<times> Session \<Rightarrow> unit res \<times> Tumbler \<times> Session" where
  "FinalizeExchange reason details ts =
    (let tb = fst ts; s = snd ts in
     if reason = ReasonSuccess \<and>
        (state s \<noteq> StateEscrowPublished \<and> state s \<noteq> StateSolutionPublished)
       then (Panic (PanicMsg ''no reason for success''), tb, s)
     else if finsema s \<noteq> 0 then (Ok (), tb, s)
     else
       let s1 = s\<lparr>finsema := 1\<rparr>;
           ts2 = Disconnect tb s1
       in (bind (String (snd ts2)) (\<lambda>str.
             if reason \<noteq> ReasonSuccess
             then bind (index reasonNames reason) (\<lambda>why. Ok ())
             else Ok ()),
           fst ts2, snd ts2))"

text \<open>The zero value of the \<^verbatim>\<open>Session\<close> struct, and of \<^verbatim>\<open>Tumbler\<close> as \<^verbatim>\<open>NewTumbler\<close> leaves it.\<close>

definition zeroSession :: Session where
  "zeroSession =
    \<lparr>sersema = 0, finsema = 0, Cookie = [], explist = False, expire = 0, deadline = 0,
     address = [], epoch = 0, contract = None, state = 0, err = None, puzzles = [],
     secrets = [], solutions = [], txHashes = [], realSetHash = [], fakeSetHash = [],
     realPuzzleList = []\<rparr>"

text \<open>
  The two chains as the specification lists them, and the pairs of neighbours in a
  chain.  These two follow the specification, not the source.
\<close>

definition spec_payee_chain :: "int list" where
  "spec_payee_chain =
    [StateInitial, StateEscrowComplete, StatePuzzlesPromised, StatePuzzlesValidated,
     StateEscrowPublished]"

definition spec_payer_chain :: "int list" where
  "spec_payer_chain =
    [StateInitial, StateSolutionsPromised, StateSolutionsValidated, StateOfferReceived,
     StateSolutionPublished]"

definition spec_steps :: "int list \<Rightarrow> (int \<times> int) list" where
  "spec_steps chain = zip chain (tl chain)"

subsection \<open>Epochs (tumbler/tumbler.go)\<close>

text \<open>
  The expiry loop of \<^verbatim>\<open>NewEpoch\<close>: every epoch with
  \<open>BlockHeight + epochDuration < blockHeight\<close> (in \<open>int32\<close>, so the sum wraps) is set to
  nil and counted; reading the height of a nil entry panics.  The result is the slice
  as the loop leaves it and the count.
\<close>

fun expire_loop ::
  "32 word \<Rightarrow> 32 word \<Rightarrow> Epoch option list \<Rightarrow> (Epoch option list \<times> nat) res" where
  "expire_loop d blockHeight [] = Ok ([], 0)"
| "expire_loop d blockHeight (None # es) = Panic NilDereference"
| "expire_loop d blockHeight (Some e # es) =
    bind (expire_loop d blockHeight es) (\<lambda>r.
      if sint (BlockHeight e + d) < sint blockHeight
      then Ok (None # fst r, Suc (snd r))
      else Ok (Some e # fst r, snd r))"

definition NewEpoch ::
  "Env \<Rightarrow> 32 word \<Rightarrow> nat \<times> Tumbler \<Rightarrow> (unit res \<times> nat \<times> Tumbler) option" where
  "NewEpoch env blockHeight wt =
    (let w = fst wt; tb = snd wt in
     case (if length (epochs tb) > 0
           then (case last (epochs tb) of
                   None \<Rightarrow> Panic NilDereference
                 | Some l \<Rightarrow>
                     if sint (BlockHeight l) \<ge> sint blockHeight
                     then Err (ErrBadBlockHeight blockHeight) else Ok ())
           else Ok ()) of
       Panic p \<Rightarrow> Some (Panic p, w, tb)
     | Err e \<Rightarrow> Some (Err e, w, tb)
     | Ok u \<Rightarrow>
         (case GeneratePuzzleKey env (puzzleDifficulty tb) w of
            None \<Rightarrow> None
          | Some (Panic p, w') \<Rightarrow> Some (Panic p, w', tb)
          | Some (Err e, w') \<Rightarrow> Some (Err e, w', tb)
          | Some (Ok pk, w') \<Rightarrow>
              let e = \<lparr>ep_Address = [], ep_Pubkey = [], BlockHeight = blockHeight,
                       puzzleKey = pk\<rparr>
              in (case expire_loop (epochDuration tb) blockHeight (epochs tb) of
                    Panic p \<Rightarrow> Some (Panic p, w', tb)
                  | Err x \<Rightarrow> Some (Err x, w', tb)
                  | Ok r \<Rightarrow>
                      Some (Ok (), w',
                            tb\<lparr>epochs := drop (snd r) (fst r) @ [Some e],
                               lastEpoch := blockHeight\<rparr>))))"

definition getCurrentEpoch :: "Tumbler \<Rightarrow> 32 word res" where
  "getCurrentEpoch tb =
    (if lastEpoch tb \<noteq> 0 then Ok (lastEpoch tb) else Err ErrNoCurrentEpoch)"

fun getPuzzleKey_loop :: "Epoch option list \<Rightarrow> 32 word \<Rightarrow> PuzzleKey res" where
  "getPuzzleKey_loop [] blockHeight = Err ErrEpochNotFound"
| "getPuzzleKey_loop (None # es) blockHeight = Panic NilDereference"
| "getPuzzleKey_loop (Some e # es) blockHeight =
    (if BlockHeight e = blockHeight then Ok (puzzleKey e)
     else getPuzzleKey_loop es blockHeight)"

definition getPuzzleKey :: "Tumbler \<Rightarrow> 32 word \<Rightarrow> PuzzleKey res" where
  "getPuzzleKey tb blockHeight = getPuzzleKey_loop (epochs tb) blockHeight"

text \<open>
  The search of \<^verbatim>\<open>getEpochAddress\<close>: the position of the first epoch of that height
  (\<open>None\<close> when there is none).
\<close>

fun find_epoch :: "Epoch option list \<Rightarrow> 32 word \<Rightarrow> nat \<Rightarrow> nat option res" where
  "find_epoch [] blockHeight i = Ok None"
| "find_epoch (None # es) blockHeight i = Panic NilDereference"
| "find_epoch (Some e # es) blockHeight i =
    (if BlockHeight e = blockHeight then Ok (Some i) else find_epoch es blockHeight (Suc i))"

definition getEpochAddress ::
  "Env \<Rightarrow> 32 word \<Rightarrow> nat \<times> Tumbler \<Rightarrow> (string \<times> string) res \<times> nat \<times> Tumbler" where
  "getEpochAddress env blockHeight wt =
    (let w = fst wt; tb = snd wt in
     case find_epoch (epochs tb) blockHeight 0 of
       Panic p \<Rightarrow> (Panic p, w, tb)
     | Err e \<Rightarrow> (Err e, w, tb)
     | Ok None \<Rightarrow> (Err ErrEpochNotFound, w, tb)
     | Ok (Some i) \<Rightarrow>
         (case epochs tb ! i of
            None \<Rightarrow> (Panic NilDereference, w, tb)
          | Some e \<Rightarrow>
              if length (ep_Address e) > 0 then (Ok (ep_Address e, ep_Pubkey e), w, tb)
              else if sint (BlockHeight e + epochDuration tb) < sint (lastEpoch tb - 1)
                then (Err (ErrEpochTooOld blockHeight), w, tb)
              else (case wallet_GetExtAddress env w of
                      Inl x \<Rightarrow> (Err x, Suc w, tb)
                    | Inr ap \<Rightarrow>
                        (Ok ap, Suc w,
                         tb\<lparr>epochs := (epochs tb)
                              [i := Some (e\<lparr>ep_Address := fst ap, ep_Pubkey := snd ap\<rparr>)]\<rparr>))))"

definition ConfirmationInterval :: time where
  "ConfirmationInterval = 300000000000"

definition DeferAction :: "Tumbler \<Rightarrow> Session \<Rightarrow> PaymentOfferT \<Rightarrow> time \<Rightarrow> Tumbler" where
  "DeferAction tb s arg u =
    tb\<lparr>actions := actions tb @ [\<lparr>da_session = Cookie s, da_argument = arg, da_until = u\<rparr>]\<rparr>"

text \<open>A run of \<^verbatim>\<open>NewEpoch\<close> calls at the given heights; a call that fails changes nothing.\<close>

fun new_epochs :: "Env \<Rightarrow> 32 word list \<Rightarrow> nat \<times> Tumbler \<Rightarrow> (nat \<times> Tumbler) option" where
  "new_epochs env [] wt = Some wt"
| "new_epochs env (h # hs) wt =
    (case NewEpoch env h wt of
       None \<Rightarrow> None
     | Some r \<Rightarrow> new_epochs env hs (snd r))"

text \<open>
  A sequence of calls of \<^verbatim>\<open>FinalizeExchange\<close> on one session, each given its reason
  and details; a call that panicked is taken as recovered, so that every later call is
  covered too.
\<close>

fun finalize_calls ::
  "(int \<times> error option) list \<Rightarrow> Tumbler \<times> Session \<Rightarrow> Tumbler \<times> Session" where
  "finalize_calls [] ts = ts"
| "finalize_calls (c # cs) ts = finalize_calls cs (snd (FinalizeExchange (fst c) (snd c) ts))"

subsection \<open>Constants and construction (tumbler/constants.go, tumbler/tumbler.go)\<close>

definition EpochDuration :: "32 word" where "EpochDuration = 10"
definition EpochRenewal :: "32 word" where "EpochRenewal = 5"
definition PuzzleDifficulty :: int where "PuzzleDifficulty = 2048"

record Config =
  cfg_EpochDuration :: "32 word"
  cfg_EpochRenewal :: "32 word"
  cfg_PuzzleDifficulty :: int

definition NewTumbler :: "Config \<Rightarrow> Tumbler" where
  "NewTumbler cfg =
    \<lparr>lastEpoch = 0, epochs = [], sessions = {}, actions = [], pending = [],
     epochDuration = cfg_EpochDuration cfg, epochRenewal = cfg_EpochRenewal cfg,
     puzzleDifficulty = cfg_PuzzleDifficulty cfg, disconnect_log = []\<rparr>"

definition defaultConfig :: Config where
  "defaultConfig =
    \<lparr>cfg_EpochDuration = EpochDuration, cfg_EpochRenewal = EpochRenewal,
     cfg_PuzzleDifficulty = PuzzleDifficulty\<rparr>"

subsection \<open>Contract templates (contract/contract.go)\<close>

definition contractValue :: int where "contractValue = 100000000"

definition ReceiverAddress :: int where "ReceiverAddress = 0"
definition RedeemAddress :: int where "RedeemAddress = 1"
definition RefundAddress :: int where "RefundAddress = 2"
definition SenderAddress :: int where "SenderAddress = 3"
definition MaxAddressRole :: int where "MaxAddressRole = 4"

lemmas role_defs =
  ReceiverAddress_def RedeemAddress_def RefundAddress_def SenderAddress_def MaxAddressRole_def

definition PayToEdwardsPubKey :: int where "PayToEdwardsPubKey = 1"
definition PayToPubKey :: int where "PayToPubKey = 2"
definition PayToPubKeyHash :: int where "PayToPubKeyHash = 4"
definition PayToSecSchnorrPubKey :: int where "PayToSecSchnorrPubKey = 8"
definition PayToScriptHash :: int where "PayToScriptHash = 16"

definition addressName :: "string list" where
  "addressName = [''receiver'', ''redeem'', ''refund'', ''sender'']"

definition contract_New :: "int \<Rightarrow> 32 word \<Rightarrow> Contract res" where
  "contract_New amount lockTime =
    (if amount \<noteq> contractValue then Err (ErrMsg ''attempted contract amount'')
     else Ok \<lparr>SenderAddr = None, SenderAddrStr = [], SenderScriptAddr = [],
              ReceiverAddr = None, ReceiverAddrStr = [], ReceiverScriptAddr = [],
              EscrowBytes = [], EscrowAddrStr = [], EscrowScript = [], EscrowHash = [],
              RefundAddr = None, RefundAddrStr = [], RefundScriptAddr = [],
              RedeemAddr = None, RedeemAddrStr = [], RedeemScriptAddr = [],
              Amount = contractValue, LockTime = lockTime\<rparr>)"

definition checkAddressType :: "address \<Rightarrow> int \<Rightarrow> bool" where
  "checkAddressType addr allowed =
    (case addr_kind addr of
       AddressEdwardsPubKey \<Rightarrow> PayToEdwardsPubKey AND allowed \<noteq> 0
     | AddressSecpPubKey \<Rightarrow> PayToPubKey AND allowed \<noteq> 0
     | AddressPubKeyHash secp \<Rightarrow> (if secp then PayToPubKeyHash else 0) AND allowed \<noteq> 0
     | AddressSecSchnorrPubKey \<Rightarrow> PayToSecSchnorrPubKey AND allowed \<noteq> 0
     | AddressScriptHash \<Rightarrow> PayToScriptHash AND allowed \<noteq> 0
     | AddressOther \<Rightarrow> False)"

text \<open>\<^verbatim>\<open>SetAddress\<close> returns the contract as it leaves it (error texts are abridged).\<close>

definition SetAddress :: "Env \<Rightarrow> Contract \<Rightarrow> int \<Rightarrow> string \<Rightarrow> string \<Rightarrow> Contract res" where
  "SetAddress env c t a pk =
    (if t \<ge> MaxAddressRole then Panic (PanicMsg ''unknown address role'')
     else case DecodeAddress env pk of
       Inl e \<Rightarrow> bind (index addressName t) (\<lambda>n. Err (ErrWrap (''failed to decode pubkey: '' @ n) e))
     | Inr addr \<Rightarrow>
       (case DecodeAddress env a of
          Inl e \<Rightarrow>
            bind (index addressName t) (\<lambda>n. Err (ErrWrap (''failed to decode address: '' @ n) e))
        | Inr chk \<Rightarrow>
            if addr_Address addr \<noteq> addr_Address chk
              then Err (ErrMsg ''address and public key do not match'')
            else if t = ReceiverAddress then
              (if \<not> checkAddressType chk (PayToPubKey OR PayToPubKeyHash)
               then Err (ErrMsg ''address is not a secp256k1 P2PK or P2PKH'')
               else Ok (c\<lparr>ReceiverAddr := Some addr, ReceiverAddrStr := a,
                          ReceiverScriptAddr := addr_ScriptAddress addr\<rparr>))
            else if t = RedeemAddress then
              (if \<not> checkAddressType chk PayToPubKeyHash
               then Err (ErrMsg ''address is not P2PKH'')
               else Ok (c\<lparr>RedeemAddr := Some addr, RedeemAddrStr := a,
                          RedeemScriptAddr := addr_ScriptAddress addr\<rparr>))
            else if t = RefundAddress then
              (if \<not> checkAddressType chk PayToPubKeyHash
               then Err (ErrMsg ''address is not a secp256k1 P2PKH'')
               else Ok (c\<lparr>RefundAddr := Some addr, RefundAddrStr := a,
                          RefundScriptAddr := addr_ScriptAddress addr\<rparr>))
            else if t = SenderAddress then
              (if \<not> checkAddressType chk (PayToPubKey OR PayToPubKeyHash)
               then Err (ErrMsg ''address is not a secp256k1 P2PK or P2PKH'')
               else Ok (c\<lparr>SenderAddr := Some addr, SenderAddrStr := a,
                          SenderScriptAddr := addr_ScriptAddress addr\<rparr>))
            else Err (ErrMsg ''unknown address type'')))"

subsection \<open>The puzzle-promise handlers (tumbler/puzzlepromise.go)\<close>

text \<open>
  A handler takes the count of external calls so far, the tumbler and the session, and
  returns its result with the three as it leaves them.  The \<^verbatim>\<open>log\<close> calls are left
  out: after a latch \<^verbatim>\<open>s.String()\<close> indexes \<open>stateNames\<close> with the constant just
  stored, so it cannot panic.  A wallet call on a nil contract is a nil dereference.
\<close>

record EscrowRequest =
  er_Address :: string
  er_PublicKey :: string
  er_Amount :: int

record EscrowOffer =
  eo_Epoch :: "32 word"
  eo_LockTime :: "32 word"
  eo_Address :: string
  eo_PublicKey :: string
  eo_EscrowScript :: bytes
  eo_EscrowTx :: bytes

definition SetupEscrow ::
  "Env \<Rightarrow> EscrowRequest \<Rightarrow> nat \<times> Tumbler \<times> Session
    \<Rightarrow> EscrowOffer res \<times> nat \<times> Tumbler \<times> Session" where
  "SetupEscrow env er sys =
    (let w = fst sys; tb = fst (snd sys); s = snd (snd sys) in
     case ready s StateEscrowComplete of
       Panic p \<Rightarrow> (Panic p, w, tb, s)
     | Err e \<Rightarrow> (Err e, w, tb, s)
     | Ok u \<Rightarrow>
     (case getCurrentEpoch tb of
        Panic p \<Rightarrow> (Panic p, w, tb, s)
      | Err e \<Rightarrow> (Err e, w, tb, s)
      | Ok ep \<Rightarrow>
      (case contract_New (er_Amount er) (ep + epochDuration tb) of
         Panic p \<Rightarrow> (Panic p, w, tb, s\<lparr>contract := None\<rparr>)
       | Err e \<Rightarrow> (Err e, w, tb, s\<lparr>contract := None\<rparr>)
       | Ok c \<Rightarrow>
       (case SetAddress env c ReceiverAddress (er_Address er) (er_PublicKey er) of
          Panic p \<Rightarrow> (Panic p, w, tb, s\<lparr>contract := Some c\<rparr>)
        | Err e \<Rightarrow> (Err e, w, tb, s\<lparr>contract := Some c\<rparr>)
        | Ok c1 \<Rightarrow>
        (case wallet_CreateEscrow env w c1 of
           (c2, Some e) \<Rightarrow> (Err e, Suc w, tb, s\<lparr>contract := Some c2\<rparr>)
         | (c2, None) \<Rightarrow>
             let s1 = s\<lparr>contract := Some c2, epoch := ep, state := StateEscrowComplete\<rparr>
             in (case SenderAddr c2 of
                   None \<Rightarrow> (Panic NilDereference, Suc w, tb, s1)
                 | Some sa \<Rightarrow>
                     (Ok \<lparr>eo_Epoch = ep, eo_LockTime = ep + epochDuration tb,
                          eo_Address = SenderAddrStr c2,
                          eo_PublicKey = addr_EncodeAddress sa,
                          eo_EscrowScript = EscrowScript c2,
                          eo_EscrowTx = EscrowBytes c2\<rparr>,
                      Suc w, tb, s1)))))))"

record SignatureChallenges =
  sc_FakeSetHash :: bytes
  sc_RealSetHash :: bytes
  sc_TransactionHashes :: "bytes list"
  sc_Signatures :: "bytes list"
  sc_PublicKey :: bytes

record SignaturePromises =
  sp_PublicKey :: bytes
  sp_PuzzleKey :: bytes
  sp_Puzzles :: "bytes list"
  sp_Promises :: "bytes list"

text \<open>The loop over the signatures: one puzzle, promise and secret each, in order.\<close>

fun puzzle_promise_loop ::
  "Env \<Rightarrow> PuzzleKey \<Rightarrow> bytes list \<Rightarrow> nat \<Rightarrow> (bytes \<times> bytes \<times> bytes) list res \<times> nat" where
  "puzzle_promise_loop env pk [] w = (Ok [], w)"
| "puzzle_promise_loop env pk (sg # sgs) w =
    (case NewPuzzlePromise env w pk sg of
       Panic p \<Rightarrow> (Panic p, Suc w)
     | Err e \<Rightarrow> (Err e, Suc w)
     | Ok r \<Rightarrow>
         (case puzzle_promise_loop env pk sgs (Suc w) of
            (Ok rs, w') \<Rightarrow> (Ok (r # rs), w')
          | (Err e, w') \<Rightarrow> (Err e, w')
          | (Panic p, w') \<Rightarrow> (Panic p, w')))"

definition GetPuzzlePromises ::
  "Env \<Rightarrow> SignatureChallenges \<Rightarrow> nat \<times> Tumbler \<times> Session
    \<Rightarrow> SignaturePromises res \<times> nat \<times> Tumbler \<times> Session" where
  "GetPuzzlePromises env cp sys =
    (let w = fst sys; tb = fst (snd sys); s = snd (snd sys) in
     case ready s StatePuzzlesPromised of
       Panic p \<Rightarrow> (Panic p, w, tb, s)
     | Err e \<Rightarrow> (Err e, w, tb, s)
     | Ok u \<Rightarrow>
     (case getPuzzleKey tb (epoch s) of
        Panic p \<Rightarrow> (Panic p, w, tb, s)
      | Err e \<Rightarrow> (Err e, w, tb, s)
      | Ok pk \<Rightarrow>
      (case x509_MarshalPKIXPublicKey env (PublicKey pk) of
         Inl e \<Rightarrow> (Err e, w, tb, s)
       | Inr key \<Rightarrow>
       (case puzzle_promise_loop env pk (sc_Signatures cp) w of
          (Panic p, w') \<Rightarrow> (Panic p, w', tb, s)
        | (Err e, w') \<Rightarrow> (Err e, w', tb, s)
        | (Ok rs, w') \<Rightarrow>
            (Ok \<lparr>sp_PublicKey = sc_PublicKey cp, sp_PuzzleKey = key,
                 sp_Puzzles = map fst rs, sp_Promises = map (\<lambda>r. fst (snd r)) rs\<rparr>,
             w', tb,
             s\<lparr>secrets := map (\<lambda>r. snd (snd r)) rs,
               realSetHash := sc_RealSetHash cp,
               fakeSetHash := sc_FakeSetHash cp,
               txHashes := sc_TransactionHashes cp,
               state := StatePuzzlesPromised\<rparr>)))))"

record TransactionDisclosure =
  td_FakeTxList :: bytes
  td_RealTxList :: bytes
  td_RandomPads :: "bytes list"
  td_Salt :: bytes

record TransactionSecrets =
  ts_Secrets :: "bytes list"
  ts_Quotients :: "bytes list"

text \<open>
  The loops of \<^verbatim>\<open>ValidatePuzzles\<close>, \<^verbatim>\<open>ValidateSolutions\<close> and \<^verbatim>\<open>RevealSolution\<close>
  over a decoded index list: the guard is \<open>idx > len\<close>, and the element is then read at
  \<open>idx\<close>.
\<close>

fun fake_tx_loop :: "Env \<Rightarrow> bytes list \<Rightarrow> bytes list \<Rightarrow> int list \<Rightarrow> nat \<Rightarrow> unit res" where
  "fake_tx_loop env txh pads [] i = Ok ()"
| "fake_tx_loop env txh pads (idx # rest) i =
    (if idx > int (length txh) then Err (ErrMsg ''bad tx reference'')
     else bind (index pads (int i)) (\<lambda>pad.
       if length pad \<noteq> 32 then Err (ErrMsg ''bad input values'')
       else let fkh = FakeTxFormat env pad in
         bind (index txh idx) (\<lambda>h.
           if fkh \<noteq> h then Err (ErrMsg ''fake tx did not verify'')
           else fake_tx_loop env txh pads rest (Suc i))))"

fun copy_loop :: "bytes list \<Rightarrow> int list \<Rightarrow> bytes list res" where
  "copy_loop xs [] = Ok []"
| "copy_loop xs (idx # rest) =
    bind (index xs idx) (\<lambda>x. bind (copy_loop xs rest) (\<lambda>r. Ok (x # r)))"

fun reveal_loop :: "string \<Rightarrow> bytes list \<Rightarrow> int list \<Rightarrow> bytes list res" where
  "reveal_loop msg xs [] = Ok []"
| "reveal_loop msg xs (idx # rest) =
    (if idx > int (length xs) then Err (ErrMsg msg)
     else bind (index xs idx) (\<lambda>x. bind (reveal_loop msg xs rest) (\<lambda>r. Ok (x # r))))"

definition ValidatePuzzles ::
  "Env \<Rightarrow> TransactionDisclosure \<Rightarrow> nat \<times> Tumbler \<times> Session
    \<Rightarrow> TransactionSecrets res \<times> nat \<times> Tumbler \<times> Session" where
  "ValidatePuzzles env cd sys =
    (let w = fst sys; tb = fst (snd sys); s = snd (snd sys) in
     (case
       bind (ready s StatePuzzlesValidated) (\<lambda>u.
       bind (case DecodeIndexList (td_FakeTxList cd) of
               Err e \<Rightarrow> Err (ErrWrap ''failed to decode fake tx index list'' e)
             | r \<Rightarrow> r) (\<lambda>fakeTxList.
       bind (case DecodeIndexList (td_RealTxList cd) of
               Err e \<Rightarrow> Err (ErrWrap ''failed to decode real tx index list'' e)
             | r \<Rightarrow> r) (\<lambda>realTxList.
       if length fakeTxList > length (txHashes s)
          \<or> length realTxList > length (txHashes s)
          \<or> length (td_RandomPads cd) > length (txHashes s)
          \<or> length fakeTxList > length (td_RandomPads cd)
          \<or> length (td_Salt cd) \<noteq> 32
       then Err (ErrMsg ''bad input values'')
       else
       bind (case getPuzzleKey tb (epoch s) of
               Err e \<Rightarrow> Err (ErrWrap ''failed to obtain a puzzle key for epoch'' e)
             | r \<Rightarrow> r) (\<lambda>pk.
       bind (case HashIndexList env (td_Salt cd) fakeTxList of
               Err e \<Rightarrow> Err (ErrWrap ''failed to hash the fake tx list'' e)
             | r \<Rightarrow> r) (\<lambda>fakeSet.
       if fakeSet \<noteq> fakeSetHash s then Err (ErrMsg ''fake set did not verify'')
       else
       bind (fake_tx_loop env (txHashes s) (td_RandomPads cd) fakeTxList 0) (\<lambda>u.
       bind (case HashIndexList env (td_Salt cd) realTxList of
               Err e \<Rightarrow> Err (ErrWrap ''failed to hash the real tx list'' e)
             | r \<Rightarrow> r) (\<lambda>realSet.
       if realSet \<noteq> realSetHash s then Err (ErrMsg ''real set did not verify'')
       else
       bind (copy_loop (secrets s) fakeTxList) (\<lambda>fakeSecrets.
       bind (reveal_loop ''bad tx reference'' (secrets s) realTxList) (\<lambda>realSecrets.
       bind (case Quotients env (PublicKey pk) realSecrets of
               Err e \<Rightarrow> Err (ErrWrap ''failed to generate quotients'' e)
             | r \<Rightarrow> r) (\<lambda>quotients.
       Ok \<lparr>ts_Secrets = fakeSecrets, ts_Quotients = quotients\<rparr>))))))))))
      of
        Panic p \<Rightarrow> (Panic p, w, tb, s)
      | Err e \<Rightarrow> (Err e, w, tb, s)
      | Ok r \<Rightarrow>
          (Ok r, w, tb,
           s\<lparr>puzzles := [], txHashes := [], realSetHash := [], fakeSetHash := [],
             state := StatePuzzlesValidated\<rparr>)))"

text \<open>
  \<^verbatim>\<open>FinalizeEscrow\<close> defers \<^verbatim>\<open>FinalizeExchange\<close> with the reason success: it runs
  after the result (the escrow hash) has been read, and a panic in it replaces the
  return.
\<close>

definition FinalizeEscrow ::
  "Env \<Rightarrow> nat \<times> Tumbler \<times> Session \<Rightarrow> bytes res \<times> nat \<times> Tumbler \<times> Session" where
  "FinalizeEscrow env sys =
    (let w = fst sys; tb = fst (snd sys); s = snd (snd sys) in
     case ready s StateEscrowPublished of
       Panic p \<Rightarrow> (Panic p, w, tb, s)
     | Err e \<Rightarrow> (Err e, w, tb, s)
     | Ok u \<Rightarrow>
     (case contract s of
        None \<Rightarrow> (Panic NilDereference, w, tb, s)
      | Some c \<Rightarrow>
        (case wallet_PublishEscrow env w c of
           (c1, Some e) \<Rightarrow>
             (Err (ErrWrap ''failed to publish escrow tx'' e), Suc w, tb, s\<lparr>contract := Some c1\<rparr>)
         | (c1, None) \<Rightarrow>
             let s1 = s\<lparr>contract := Some c1, state := StateEscrowPublished\<rparr>;
                 fin = FinalizeExchange ReasonSuccess None (tb, s1)
             in (case fst fin of
                   Panic p \<Rightarrow> (Panic p, Suc w, snd fin)
                 | Err e \<Rightarrow> (Err e, Suc w, snd fin)
                 | Ok u \<Rightarrow> (Ok (EscrowHash c1), Suc w, snd fin)))))"

subsection \<open>The puzzle-solver handlers (tumbler/puzzlesolver.go)\<close>

record SolutionChallenges =
  so_Epoch :: "32 word"
  so_Puzzles :: "bytes list"

record SolutionPromises =
  sl_Promises :: "bytes list"
  sl_KeyHashes :: "bytes list"

fun solution_promise_loop ::
  "Env \<Rightarrow> PuzzleKey \<Rightarrow> bytes list \<Rightarrow> nat \<Rightarrow> (bytes \<times> bytes \<times> bytes) list res \<times> nat" where
  "solution_promise_loop env pk [] w = (Ok [], w)"
| "solution_promise_loop env pk (p # ps) w =
    (case NewSolutionPromise env w pk p of
       Panic pn \<Rightarrow> (Panic pn, Suc w)
     | Err e \<Rightarrow> (Err e, Suc w)
     | Ok r \<Rightarrow>
         (case solution_promise_loop env pk ps (Suc w) of
            (Ok rs, w') \<Rightarrow> (Ok (r # rs), w')
          | (Err e, w') \<Rightarrow> (Err e, w')
          | (Panic pn, w') \<Rightarrow> (Panic pn, w')))"

definition GetSolutionPromises ::
  "Env \<Rightarrow> SolutionChallenges \<Rightarrow> nat \<times> Tumbler \<times> Session
    \<Rightarrow> SolutionPromises res \<times> nat \<times> Tumbler \<times> Session" where
  "GetSolutionPromises env sc sys =
    (let w = fst sys; tb = fst (snd sys); s = snd (snd sys) in
     case ready s StateSolutionsPromised of
       Panic p \<Rightarrow> (Panic p, w, tb, s)
     | Err e \<Rightarrow> (Err e, w, tb, s)
     | Ok u \<Rightarrow>
     (case getPuzzleKey tb (so_Epoch sc) of
        Panic p \<Rightarrow> (Panic p, w, tb, s)
      | Err e \<Rightarrow> (Err e, w, tb, s)
      | Ok pk \<Rightarrow>
      (case solution_promise_loop env pk (so_Puzzles sc) w of
         (Panic p, w') \<Rightarrow> (Panic p, w', tb, s)
       | (Err e, w') \<Rightarrow> (Err e, w', tb, s)
       | (Ok rs, w') \<Rightarrow>
           (Ok \<lparr>sl_Promises = map (\<lambda>r. fst (snd r)) rs,
                sl_KeyHashes = map (\<lambda>r. chainhash_HashB env (snd (snd r))) rs\<rparr>,
            w', tb,
            s\<lparr>puzzles := so_Puzzles sc,
              solutions := map fst rs,
              secrets := map (\<lambda>r. snd (snd r)) rs,
              epoch := so_Epoch sc,
              state := StateSolutionsPromised\<rparr>))))"

record PuzzleDisclosure =
  pd_FakePuzzleList :: bytes
  pd_FakeFactors :: "bytes list"

fun fake_puzzle_loop ::
  "PuzzlePubKey \<Rightarrow> bytes list \<Rightarrow> bytes list \<Rightarrow> int list \<Rightarrow> nat \<Rightarrow> unit res" where
  "fake_puzzle_loop pk pzs factors [] i = Ok ()"
| "fake_puzzle_loop pk pzs factors (idx # rest) i =
    (if idx > int (length pzs) then Err (ErrMsg ''bad puzzle reference'')
     else bind (index pzs idx) (\<lambda>p.
          bind (index factors (int i)) (\<lambda>f.
            if \<not> ValidatePuzzle pk p f then Err (ErrMsg ''puzzles did not verify'')
            else fake_puzzle_loop pk pzs factors rest (Suc i))))"

definition ValidateSolutions ::
  "Env \<Rightarrow> PuzzleDisclosure \<Rightarrow> nat \<times> Tumbler \<times> Session
    \<Rightarrow> bytes list res \<times> nat \<times> Tumbler \<times> Session" where
  "ValidateSolutions env pd sys =
    (let w = fst sys; tb = fst (snd sys); s = snd (snd sys) in
     (case
       bind (ready s StateSolutionsValidated) (\<lambda>u.
       bind (case DecodeIndexList (pd_FakePuzzleList pd) of
               Err e \<Rightarrow> Err (ErrWrap ''failed to decode puzzle index list'' e)
             | r \<Rightarrow> r) (\<lambda>fakePuzzleList.
       if length fakePuzzleList > length (puzzles s)
       then Err (ErrMsg ''failed to decode puzzle index list: bad input values'')
       else
       bind (case getPuzzleKey tb (epoch s) of
               Err e \<Rightarrow> Err (ErrWrap ''failed to obtain a puzzle key for epoch'' e)
             | r \<Rightarrow> r) (\<lambda>pk.
       bind (fake_puzzle_loop (PublicKey pk) (puzzles s) (pd_FakeFactors pd) fakePuzzleList 0)
         (\<lambda>u. reveal_loop ''bad puzzle reference'' (secrets s) fakePuzzleList))))
      of
        Panic p \<Rightarrow> (Panic p, w, tb, s)
      | Err e \<Rightarrow> (Err e, w, tb, s)
      | Ok r \<Rightarrow> (Ok r, w, tb, s\<lparr>state := StateSolutionsValidated\<rparr>)))"

fun blinded_puzzle_loop ::
  "PuzzlePubKey \<Rightarrow> bytes list \<Rightarrow> bytes \<Rightarrow> bytes list \<Rightarrow> int list \<Rightarrow> nat \<Rightarrow> unit res" where
  "blinded_puzzle_loop pk pzs pz factors [] i = Ok ()"
| "blinded_puzzle_loop pk pzs pz factors (idx # rest) i =
    (if idx > int (length pzs) then Err (ErrMsg ''bad puzzle reference'')
     else bind (index pzs idx) (\<lambda>p.
          bind (index factors (int i)) (\<lambda>f.
          bind (ValidateBlindedPuzzle pk p pz f) (\<lambda>ok.
            if \<not> ok then Err (ErrMsg ''puzzles did not verify'')
            else blinded_puzzle_loop pk pzs pz factors rest (Suc i)))))"

definition RevealSolution :: "PaymentOfferT \<Rightarrow> Tumbler \<times> Session \<Rightarrow> bytes list res" where
  "RevealSolution po ts =
    (let tb = fst ts; s = snd ts in
     bind (getPuzzleKey tb (epoch s)) (\<lambda>pk.
     bind (blinded_puzzle_loop (PublicKey pk) (puzzles s) (po_Puzzle po) (po_RealFactors po)
             (realPuzzleList s) 0) (\<lambda>u.
       reveal_loop ''bad puzzle reference'' (secrets s) (realPuzzleList s))))"

definition PublishSolution ::
  "Env \<Rightarrow> bytes list \<Rightarrow> nat \<times> Tumbler \<times> Session \<Rightarrow> unit res \<times> nat \<times> Tumbler \<times> Session" where
  "PublishSolution env scs sys =
    (let w = fst sys; tb = fst (snd sys); s = snd (snd sys) in
     case contract s of
       None \<Rightarrow> (Panic NilDereference, w, tb, s)
     | Some c \<Rightarrow>
       (case wallet_PublishSolution env w c scs of
          (c1, Some e) \<Rightarrow>
            (Err (ErrWrap ''failed to publish fulfilling tx'' e), Suc w, tb,
             s\<lparr>contract := Some c1\<rparr>)
        | (c1, None) \<Rightarrow>
            let s1 = s\<lparr>contract := Some c1, state := StateSolutionPublished\<rparr>;
                fin = FinalizeExchange ReasonSuccess None (tb, s1)
            in (fst fin, Suc w, snd fin)))"

text \<open>
  \<^verbatim>\<open>validateOffer\<close> returns nothing: a failure is latched in \<open>s.err\<close> and the exchange
  is finalized with the reason failed exchange.
\<close>

definition fail_exchange ::
  "error \<Rightarrow> nat \<times> Tumbler \<times> Session \<Rightarrow> unit res \<times> nat \<times> Tumbler \<times> Session" where
  "fail_exchange e sys =
    (let w = fst sys; tb = fst (snd sys); s = snd (snd sys);
         fin = FinalizeExchange ReasonFailedExchange None (tb, s\<lparr>err := Some e\<rparr>)
     in (fst fin, w, snd fin))"

definition validateOffer ::
  "Env \<Rightarrow> PaymentOfferT \<Rightarrow> nat \<times> Tumbler \<times> Session \<Rightarrow> unit res \<times> nat \<times> Tumbler \<times> Session" where
  "validateOffer env po sys =
    (let w = fst sys; tb = fst (snd sys); s = snd (snd sys) in
     case ready s StateSolutionPublished of
       Panic p \<Rightarrow> (Panic p, w, tb, s)
     | Err e \<Rightarrow> fail_exchange e (w, tb, s)
     | Ok u \<Rightarrow>
     (case contract s of
        None \<Rightarrow> (Panic NilDereference, w, tb, s)
      | Some c \<Rightarrow>
        (case wallet_ValidateOffer env w c (po_EscrowHash po) of
           (c1, valid, Some e) \<Rightarrow>
             fail_exchange (ErrWrap ''failed to validate offer tx'' e)
               (Suc w, tb, s\<lparr>contract := Some c1\<rparr>)
         | (c1, valid, None) \<Rightarrow>
             let s1 = s\<lparr>contract := Some c1\<rparr>;
                 now = time_Now env (Suc w);
                 w2 = Suc (Suc w)
             in if \<not> valid \<and> now > deadline s1
                then fail_exchange (ErrMsg ''offer tx was not confirmed in time'') (w2, tb, s1)
                else if \<not> valid
                then (Ok (), w2, DeferAction tb s1 po (now + ConfirmationInterval), s1)
                else
                  (case copy_loop (puzzles s1) (realPuzzleList s1) of
                     Panic p \<Rightarrow> (Panic p, w2, tb, s1)
                   | Err e \<Rightarrow> (Err e, w2, tb, s1)
                   | Ok hashes \<Rightarrow>
                     (case RevealSolution po (tb, s1) of
                        Panic p \<Rightarrow> (Panic p, w2, tb, s1)
                      | Err e \<Rightarrow> fail_exchange e (w2, tb, s1)
                      | Ok scs \<Rightarrow>
                        (case PublishSolution env scs (w2, tb, s1) of
                           (Panic p, sys3) \<Rightarrow> (Panic p, sys3)
                         | (Err e, sys3) \<Rightarrow> fail_exchange e sys3
                         | (Ok u, sys3) \<Rightarrow> (Ok (), sys3)))))))"

definition PaymentOffer ::
  "Env \<Rightarrow> PaymentOfferT \<Rightarrow> nat \<times> Tumbler \<times> Session \<Rightarrow> unit res \<times> nat \<times> Tumbler \<times> Session" where
  "PaymentOffer env po sys =
    (let w = fst sys; tb = fst (snd sys); s = snd (snd sys) in
     case ready s StateOfferReceived of
       Panic p \<Rightarrow> (Panic p, w, tb, s)
     | Err e \<Rightarrow> (Err e, w, tb, s)
     | Ok u \<Rightarrow>
     (case DecodeIndexList (po_RealPuzzleList po) of
        Panic p \<Rightarrow> (Panic p, w, tb, s)
      | Err e \<Rightarrow>
          (Err (ErrWrap ''failed to decode puzzle index list'' e), w, tb,
           s\<lparr>realPuzzleList := []\<rparr>)
      | Ok rpl \<Rightarrow>
        let s1 = s\<lparr>realPuzzleList := rpl\<rparr> in
        if length rpl > length (puzzles s1)
          then (Err (ErrMsg ''failed to decode puzzle index list: bad input values''), w, tb, s1)
        else if contract s1 \<noteq> None
          then (Err (ErrMsg ''conflicting offer tx''), w, tb, s1)
        else if list_ex (\<lambda>idx. idx > int (length (puzzles s1))) rpl
          then (Err (ErrMsg ''bad puzzle reference''), w, tb, s1)
        else if length (po_EscrowTx po) = 0 \<or> length (po_EscrowScript po) = 0
                \<or> length (po_EscrowHash po) = 0
          then (Err (ErrMsg ''bad offer tx''), w, tb, s1)
        else
        (case contract_New (po_Amount po) (epoch s1 + EpochDuration) of
           Panic p \<Rightarrow> (Panic p, w, tb, s1\<lparr>contract := None\<rparr>)
         | Err e \<Rightarrow> (Err e, w, tb, s1\<lparr>contract := None\<rparr>)
         | Ok c \<Rightarrow>
         (case SetAddress env c SenderAddress (address s1) (po_PublicKey po) of
            Panic p \<Rightarrow> (Panic p, w, tb, s1\<lparr>contract := Some c\<rparr>)
          | Err e \<Rightarrow> (Err e, w, tb, s1\<lparr>contract := Some c\<rparr>)
          | Ok c1 \<Rightarrow>
          (case getEpochAddress env (epoch s1) (w, tb) of
             (Panic p, w1, tb1) \<Rightarrow> (Panic p, w1, tb1, s1\<lparr>contract := Some c1\<rparr>)
           | (Err e, w1, tb1) \<Rightarrow>
               (Err (ErrWrap ''failed to obtain an address for an epoch'' e), w1, tb1,
                s1\<lparr>contract := Some c1\<rparr>)
           | (Ok ap, w1, tb1) \<Rightarrow>
           (case SetAddress env c1 ReceiverAddress (fst ap) (snd ap) of
              Panic p \<Rightarrow> (Panic p, w1, tb1, s1\<lparr>contract := Some c1\<rparr>)
            | Err e \<Rightarrow> (Err e, w1, tb1, s1\<lparr>contract := Some c1\<rparr>)
            | Ok c2 \<Rightarrow>
            (case wallet_ImportEscrowScript env w1 (c2\<lparr>EscrowScript := po_EscrowScript po\<rparr>) of
               (c3, Some e) \<Rightarrow>
                 (Err (ErrWrap ''failed to import offer script'' e), Suc w1, tb1,
                  s1\<lparr>contract := Some c3\<rparr>)
             | (c3, None) \<Rightarrow>
               (case wallet_ValidateOffer env (Suc w1) c3 (po_EscrowHash po) of
                  (c4, valid, Some e) \<Rightarrow>
                    (Err (ErrWrap ''failed to validate offer tx'' e), Suc (Suc w1), tb1,
                     s1\<lparr>contract := Some c4, state := StateOfferReceived\<rparr>)
                | (c4, valid, None) \<Rightarrow>
                    let s2 = s1\<lparr>contract := Some c4, state := StateOfferReceived\<rparr>;
                        w2 = Suc (Suc w1)
                    in if \<not> valid
                       then let now = time_Now env w2 in
                         (Ok (), Suc w2,
                          DeferAction tb1 (s2\<lparr>deadline := now + 3 * ConfirmationInterval\<rparr>) po
                            (now + ConfirmationInterval),
                          s2\<lparr>deadline := now + 3 * ConfirmationInterval\<rparr>)
                       else
                         (case validateOffer env po (w2, tb1, s2) of
                            (Panic p, sys3) \<Rightarrow> (Panic p, sys3)
                          | (r, sys3) \<Rightarrow>
                              (case err (snd (snd sys3)) of
                                 Some e \<Rightarrow> (Err e, sys3)
                               | None \<Rightarrow> (Ok (), sys3)))))))))))"

text \<open>
  \<^verbatim>\<open>PaymentOffer\<close> in two parts, cut at the assignment
  \<^verbatim>\<open>s.state = StateOfferReceived\<close>: the steps before it (the ready check, decoding and
  bounds, the conflicting contract, the offer fields, the contract and its addresses,
  the script import), which end with the session as it is when the latch is reached,
  and the steps from the latch on (the wallet's validation and the continuation).
\<close>

definition PaymentOffer_before_latch ::
  "Env \<Rightarrow> PaymentOfferT \<Rightarrow> nat \<times> Tumbler \<times> Session \<Rightarrow> unit res \<times> nat \<times> Tumbler \<times> Session" where
  "PaymentOffer_before_latch env po sys =
    (let w = fst sys; tb = fst (snd sys); s = snd (snd sys) in
     case ready s StateOfferReceived of
       Panic p \<Rightarrow> (Panic p, w, tb, s)
     | Err e \<Rightarrow> (Err e, w, tb, s)
     | Ok u \<Rightarrow>
     (case DecodeIndexList (po_RealPuzzleList po) of
        Panic p \<Rightarrow> (Panic p, w, tb, s)
      | Err e \<Rightarrow>
          (Err (ErrWrap ''failed to decode puzzle index list'' e), w, tb,
           s\<lparr>realPuzzleList := []\<rparr>)
      | Ok rpl \<Rightarrow>
        let s1 = s\<lparr>realPuzzleList := rpl\<rparr> in
        if length rpl > length (puzzles s1)
          then (Err (ErrMsg ''failed to decode puzzle index list: bad input values''), w, tb, s1)
        else if contract s1 \<noteq> None
          then (Err (ErrMsg ''conflicting offer tx''), w, tb, s1)
        else if list_ex (\<lambda>idx. idx > int (length (puzzles s1))) rpl
          then (Err (ErrMsg ''bad puzzle reference''), w, tb, s1)
        else if length (po_EscrowTx po) = 0 \<or> length (po_EscrowScript po) = 0
                \<or> length (po_EscrowHash po) = 0
          then (Err (ErrMsg ''bad offer tx''), w, tb, s1)
        else
        (case contract_New (po_Amount po) (epoch s1 + EpochDuration) of
           Panic p \<Rightarrow> (Panic p, w, tb, s1\<lparr>contract := None\<rparr>)
         | Err e \<Rightarrow> (Err e, w, tb, s1\<lparr>contract := None\<rparr>)
         | Ok c \<Rightarrow>
         (case SetAddress env c SenderAddress (address s1) (po_PublicKey po) of
            Panic p \<Rightarrow> (Panic p, w, tb, s1\<lparr>contract := Some c\<rparr>)
          | Err e \<Rightarrow> (Err e, w, tb, s1\<lparr>contract := Some c\<rparr>)
          | Ok c1 \<Rightarrow>
          (case getEpochAddress env (epoch s1) (w, tb) of
             (Panic p, w1, tb1) \<Rightarrow> (Panic p, w1, tb1, s1\<lparr>contract := Some c1\<rparr>)
           | (Err e, w1, tb1) \<Rightarrow>
               (Err (ErrWrap ''failed to obtain an address for an epoch'' e), w1, tb1,
                s1\<lparr>contract := Some c1\<rparr>)
           | (Ok ap, w1, tb1) \<Rightarrow>
           (case SetAddress env c1 ReceiverAddress (fst ap) (snd ap) of
              Panic p \<Rightarrow> (Panic p, w1, tb1, s1\<lparr>contract := Some c1\<rparr>)
            | Err e \<Rightarrow> (Err e, w1, tb1, s1\<lparr>contract := Some c1\<rparr>)
            | Ok c2 \<Rightarrow>
            (case wallet_ImportEscrowScript env w1 (c2\<lparr>EscrowScript := po_EscrowScript po\<rparr>) of
               (c3, Some e) \<Rightarrow>
                 (Err (ErrWrap ''failed to import offer script'' e), Suc w1, tb1,
                  s1\<lparr>contract := Some c3\<rparr>)
             | (c3, None) \<Rightarrow> (Ok (), Suc w1, tb1, s1\<lparr>contract := Some c3\<rparr>))))))))"

definition PaymentOffer_after_latch ::
  "Env \<Rightarrow> PaymentOfferT \<Rightarrow> nat \<times> Tumbler \<times> Session \<Rightarrow> unit res \<times> nat \<times> Tumbler \<times> Session" where
  "PaymentOffer_after_latch env po sys =
    (let w = fst sys; tb1 = fst (snd sys); s1 = snd (snd sys) in
     case contract s1 of
       None \<Rightarrow> (Panic NilDereference, w, tb1, s1\<lparr>state := StateOfferReceived\<rparr>)
     | Some c3 \<Rightarrow>
       (case wallet_ValidateOffer env w c3 (po_EscrowHash po) of
          (c4, valid, Some e) \<Rightarrow>
            (Err (ErrWrap ''failed to validate offer tx'' e), Suc w, tb1,
             s1\<lparr>contract := Some c4, state := StateOfferReceived\<rparr>)
        | (c4, valid, None) \<Rightarrow>
            let s2 = s1\<lparr>contract := Some c4, state := StateOfferReceived\<rparr>;
                w2 = Suc w
            in if \<not> valid
               then let now = time_Now env w2 in
                 (Ok (), Suc w2,
                  DeferAction tb1 (s2\<lparr>deadline := now + 3 * ConfirmationInterval\<rparr>) po
                    (now + ConfirmationInterval),
                  s2\<lparr>deadline := now + 3 * ConfirmationInterval\<rparr>)
               else
                 (case validateOffer env po (w2, tb1, s2) of
                    (Panic p, sys3) \<Rightarrow> (Panic p, sys3)
                  | (r, sys3) \<Rightarrow>
                      (case err (snd (snd sys3)) of
                         Some e \<Rightarrow> (Err e, sys3)
                       | None \<Rightarrow> (Ok (), sys3)))))"

subsection \<open>Statements about the epoch list\<close>

text \<open>
  The epoch list is strictly increasing: no entry is nil and the block heights (as
  \<open>int32\<close>) increase strictly.  A height does not wrap when adding the epoch duration
  to it stays within \<open>int32\<close>.
\<close>

definition strictly_increasing :: "Epoch option list \<Rightarrow> bool" where
  "strictly_increasing es =
    (list_all (\<lambda>e. e \<noteq> None) es
     \<and> sorted_wrt (<) (map (\<lambda>e. sint (BlockHeight (the e))) es))"

definition no_wrap :: "32 word \<Rightarrow> 32 word \<Rightarrow> bool" where
  "no_wrap d h = (- (2 ^ 31) \<le> sint h + sint d \<and> sint h + sint d < 2 ^ 31)"

definition epochs_inv :: "Tumbler \<Rightarrow> bool" where
  "epochs_inv tb =
    (strictly_increasing (epochs tb)
     \<and> list_all (\<lambda>e. no_wrap (epochDuration tb) (BlockHeight (the e))) (epochs tb))"

subsection \<open>A concrete environment and key\<close>

text \<open>
  A three-prime key with its precomputed values as \<^verbatim>\<open>Precompute\<close> sets them
  (\<open>N = 3 * 11 * 5\<close>, \<open>e = 3\<close>, \<open>d = 7\<close>), and an environment whose key generator
  refuses a modulus below eight bits and returns that key otherwise.  They serve to
  evaluate the theorems on concrete inputs.
\<close>

definition toyKey :: PrivateKey where
  "toyKey =
    \<lparr>rsa_N = 165, rsa_E = 3, rsa_D = 7, Primes = [3, 11, 5],
     Precomputed = Some \<lparr>Dp = 1, Dq = 7, Qinv = 2,
       CRTValues = [\<lparr>crt_Exp = 3, crt_Coeff = 2, crt_R = 33\<rparr>]\<rparr>\<rparr>"

definition toyAddress :: "string \<Rightarrow> address" where
  "toyAddress a =
    \<lparr>addr_kind = AddressPubKeyHash True, addr_Address = a, addr_EncodeAddress = a,
     addr_ScriptAddress = []\<rparr>"

definition toyEnv :: Env where
  "toyEnv =
    \<lparr>rand_Int = (\<lambda>w n. Inr (7 mod n)),
     rand_Read = (\<lambda>w n. Inr (replicate n (of_nat w))),
     rsa_GenerateMultiPrimeKey = (\<lambda>w nprimes bits.
       if bits < 8
       then Inl (ErrMsg ''crypto/rsa: too few primes of given length to generate an RSA key'')
       else Inr toyKey),
     big_GCD = (\<lambda>a b. (gcd a b, fst (bezw (nat a) (nat b)), snd (bezw (nat a) (nat b)))),
     x509_MarshalPKIXPublicKey = (\<lambda>pk. Inr (Bytes (pub_N pk))),
     blake2s_NewXOF = (\<lambda>n key rest. Inr (replicate n 0)),
     blake2s_New256 = (\<lambda>salt buf. Inr buf),
     chainhash_HashB = (\<lambda>b. b),
     DecodeAddress = (\<lambda>a. Inr (toyAddress a)),
     time_Now = (\<lambda>w. int w),
     wallet_CreateEscrow = (\<lambda>w c. (c, None)),
     wallet_PublishEscrow = (\<lambda>w c. (c, None)),
     wallet_ImportEscrowScript = (\<lambda>w c. (c, None)),
     wallet_ValidateOffer = (\<lambda>w c h. (c, True, None)),
     wallet_PublishSolution = (\<lambda>w c secrets. (c, None)),
     wallet_GetExtAddress = (\<lambda>w. Inr (''TsToy'', ''TsToy''))\<rparr>"

definition toyPuzzleKey :: PuzzleKey where
  "toyPuzzleKey = \<lparr>rsakey = toyKey, pk_factor = 7, pk_inverse = 118\<rparr>"

definition toyEpoch :: "32 word \<Rightarrow> Epoch" where
  "toyEpoch h = \<lparr>ep_Address = [], ep_Pubkey = [], BlockHeight = h, puzzleKey = toyPuzzleKey\<rparr>"

definition toyTumbler :: Tumbler where
  "toyTumbler =
    (NewTumbler defaultConfig)\<lparr>epochs := [Some (toyEpoch 1234)], lastEpoch := 1234\<rparr>"

text \<open>A payer session after \<^verbatim>\<open>GetSolutionPromises\<close> for one puzzle, and an offer.\<close>

definition toyPayer :: Session where
  "toyPayer =
    zeroSession\<lparr>Cookie := [7], address := ''TsClient'', epoch := 1234,
      state := StateSolutionsPromised, puzzles := [[8]], secrets := [[9]],
      solutions := [[2]]\<rparr>"

definition toyOffer :: PaymentOfferT where
  "toyOffer =
    \<lparr>po_Amount = 100000000, po_PublicKey = ''TsClient'', po_EscrowHash = [1],
     po_EscrowScript = [2], po_EscrowTx = [3], po_Puzzle = [4],
     po_RealPuzzleList = [0, 0], po_RealFactors = [[1]]\<rparr>"

text \<open>The environment with a wallet whose offer validation fails.\<close>

definition toyEnvOfferFails :: Env where
  "toyEnvOfferFails =
    toyEnv\<lparr>wallet_ValidateOffer := (\<lambda>w c h. (c, False, Some (ErrMsg ''GetTransaction'')))\<rparr>"

text \<open>
  A payee session after \<^verbatim>\<open>GetPuzzlePromises\<close> for one transaction hash (the hash of
  a fake transaction whose pad is 32 zero bytes, under the environment's stand-in
  hashes), committed to the fake set \<open>[1]\<close> and the empty real set.
\<close>

definition toyPayee :: Session where
  "toyPayee =
    zeroSession\<lparr>Cookie := [9], address := ''TsClient'', epoch := 1234,
      state := StatePuzzlesPromised, secrets := [[7]],
      txHashes := [[102, 97, 107, 101, 102, 97, 107, 101, 102, 97, 107, 101] @ replicate 32 0],
      fakeSetHash := [1, 0], realSetHash := []\<rparr>"

subsection \<open>Shuffling (shuffle/shuffle.go)\<close>

text \<open>
  The random source is an \<^verbatim>\<open>io.Reader\<close> that \<^verbatim>\<open>binary.Read\<close> asks for four bytes at a
  time.  A reader is modelled by the outcome of its successive reads: \<open>random p\<close> is the
  little-endian word the \<open>p\<close>-th read yields, or \<open>None\<close> when that read fails.
  \<^verbatim>\<open>uniformRandom31\<close> drops the error of \<^verbatim>\<open>binary.Read\<close>, and a failed read leaves
  \<^verbatim>\<open>v\<close> as it was.  The rejection loop has no bound in the source, so it is a partial
  function: \<open>None\<close> is a call that never returns.  The number of reads made so far is
  threaded through and returned.
\<close>

type_synonym reader = "nat \<Rightarrow> 32 word option"

definition read_uint32 :: "reader \<Rightarrow> nat \<Rightarrow> 32 word \<Rightarrow> 32 word" where
  "read_uint32 random pos v = (case random pos of Some x \<Rightarrow> x | None \<Rightarrow> v)"

partial_function (option) reject_loop ::
  "reader \<Rightarrow> 32 word \<Rightarrow> 32 word \<Rightarrow> 32 word \<Rightarrow> 64 word \<Rightarrow> nat \<Rightarrow> (64 word \<times> nat) option" where
  "reject_loop random n thresh v prd pos =
    (if (ucast prd :: 32 word) < thresh
     then (let v' = read_uint32 random pos v;
               prd' = (ucast v' :: 64 word) * scast n
           in reject_loop random n thresh v' prd' (Suc pos))
     else Some (prd, pos))"

declare reject_loop.simps [code]

definition uniformRandom31 :: "reader \<Rightarrow> 32 word \<Rightarrow> nat \<Rightarrow> (32 word \<times> nat) option" where
  "uniformRandom31 random n pos =
    (let v = read_uint32 random pos 0;
         prd = (ucast v :: 64 word) * scast n;
         low = (ucast prd :: 32 word)
     in if low < n
        then (let thresh = (- n) mod n in
              case reject_loop random n thresh v prd (Suc pos) of
                None \<Rightarrow> None
              | Some r \<Rightarrow> Some (ucast (drop_bit 32 (fst r)), snd r))
        else Some (ucast (drop_bit 32 prd), Suc pos))"


text \<open>
  The callback of the shuffle tests, \<^verbatim>\<open>a[i], a[j] = a[j], a[i]\<close>, with the bounds checks
  of the two reads.
\<close>

definition swap_elems :: "int \<Rightarrow> int \<Rightarrow> 'b list \<Rightarrow> 'b list res" where
  "swap_elems i j a =
     bind (index a i) (\<lambda>x. bind (index a j) (\<lambda>y. Ok (a[nat i := y, nat j := x])))"

text \<open>
  The loop \<^verbatim>\<open>for i := n - 1; i > 0; i--\<close>; the state is \<^verbatim>\<open>idx\<close>, \<^verbatim>\<open>perm\<close>, the
  caller's data that \<^verbatim>\<open>swap\<close> acts on, and the read count.
\<close>

fun shuffle_loop ::
  "reader \<Rightarrow> (int \<Rightarrow> int \<Rightarrow> 'a \<Rightarrow> 'a res) \<Rightarrow> nat \<Rightarrow> int list \<times> int list \<times> 'a \<times> nat
     \<Rightarrow> (int list \<times> int list \<times> 'a \<times> nat) res option" where
  "shuffle_loop random swap 0 st = Some (Ok st)"
| "shuffle_loop random swap (Suc k) (idx, perm, a, pos) =
    (case uniformRandom31 random (word_of_int (int (Suc k) + 1)) pos of
       None \<Rightarrow> None
     | Some (jw, pos') \<Rightarrow>
         let i = int (Suc k); j = sint jw in
         (case bind (swap i j a) (\<lambda>a'.
               bind (index idx j) (\<lambda>xj.
               bind (index idx i) (\<lambda>xi.
                 let idx' = idx[nat i := xj, nat j := xi] in
                 bind (index idx' i) (\<lambda>t.
                 bind (index perm t) (\<lambda>u. Ok (idx', perm[nat t := i], a')))))) of
            Panic p \<Rightarrow> Some (Panic p)
          | Err e \<Rightarrow> Some (Err e)
          | Ok (idx', perm', a') \<Rightarrow> shuffle_loop random swap k (idx', perm', a', pos')))"

definition Shuffle ::
  "reader \<Rightarrow> int \<Rightarrow> (int \<Rightarrow> int \<Rightarrow> 'a \<Rightarrow> 'a res) \<Rightarrow> 'a \<Rightarrow> (int list \<times> 'a \<times> nat) res option" where
  "Shuffle random n swap a =
    (if n < 0 \<or> n > 2 ^ 31 - 1 - 1 then Some (Panic (PanicMsg ''invalid argument to Shuffle''))
     else let idx = map int [0..<nat n];
              perm = replicate (nat n) 0
          in case shuffle_loop random swap (nat (n - 1)) (idx, perm, a, 0) of
               None \<Rightarrow> None
             | Some (Panic p) \<Rightarrow> Some (Panic p)
             | Some (Err e) \<Rightarrow> Some (Err e)
             | Some (Ok (idx', perm', a', pos')) \<Rightarrow> Some (Ok (perm', a', pos')))"

definition Get :: "int list \<Rightarrow> int \<Rightarrow> int res" where
  "Get perm i = index perm i"

text \<open>
  A drawn word is accepted for the bound \<open>n\<close> when the rejection test of
  \<^verbatim>\<open>uniformRandom31\<close> lets it through; a reader eventually accepts when, for every bound
  the shuffle of \<open>n\<close> elements uses and from every position on, some later read yields an
  accepted word.  \<open>shuffle_inv\<close> is the loop invariant of \<^verbatim>\<open>Shuffle\<close>: positions above
  \<open>k\<close> are final and recorded in \<^verbatim>\<open>perm\<close>.
\<close>

definition accepted :: "32 word \<Rightarrow> 32 word \<Rightarrow> bool" where
  "accepted n v = (\<not> (ucast ((ucast v :: 64 word) * scast n) :: 32 word) < (- n) mod n)"

definition eventually_accepts :: "reader \<Rightarrow> int \<Rightarrow> bool" where
  "eventually_accepts random n =
     (\<forall>m pos. 2 \<le> m \<and> m \<le> n \<longrightarrow> (\<exists>p\<ge>pos. \<exists>v. random p = Some v \<and> accepted (word_of_int m) v))"

definition shuffle_inv :: "nat \<Rightarrow> nat \<Rightarrow> int list \<Rightarrow> int list \<Rightarrow> bool" where
  "shuffle_inv N k idx perm =
     (length idx = N \<and> length perm = N \<and> distinct idx \<and> set idx = int ` {0..<N} \<and>
      (\<forall>p<N. perm ! nat (idx ! p) = (if k < p then int p else 0)))"

subsection \<open>Statements about quotients\<close>

text \<open>
  What \<^verbatim>\<open>big.Int.GCD\<close> documents for positive arguments: \<open>g\<close> is the greatest common
  divisor and \<open>a * x + b * y = g\<close>.  \<open>linked N prev ss qs\<close>: each quotient takes the
  preceding secret to the next one, modulo \<open>N\<close>.
\<close>

definition gcd_contract :: "Env \<Rightarrow> bool" where
  "gcd_contract env =
     (\<forall>a b. 0 < a \<and> 0 < b \<longrightarrow>
        (case big_GCD env a b of (g, x, y) \<Rightarrow> g = gcd a b \<and> a * x + b * y = g))"

fun linked :: "int \<Rightarrow> int \<Rightarrow> int list \<Rightarrow> int list \<Rightarrow> bool" where
  "linked N prev [] [] = True"
| "linked N prev (s # ss) (q # qs) = (0 \<le> q \<and> prev * q mod N = s \<and> linked N s ss qs)"
| "linked N prev _ _ = False"

subsection \<open>Statements about puzzle keys\<close>

text \<open>
  What \<^verbatim>\<open>crypto/rsa\<close> gives for a generated key, and \<^verbatim>\<open>newBlindingFactor\<close> for the
  blinding pair: at least two distinct odd primes whose product is \<open>N\<close>;
  \<open>e * d = 1\<close> modulo \<open>p - 1\<close> for each prime \<open>p\<close> (what \<^verbatim>\<open>Validate\<close> checks); the
  values of \<^verbatim>\<open>Precompute\<close> when they are present (\<open>Dp\<close>, \<open>Dq\<close>, \<open>Qinv\<close>, and for
  each further prime the exponent, the product \<open>R\<close> of the primes before it and the
  inverse of \<open>R\<close> modulo that prime); and \<open>factor * inverse = 1\<close> modulo \<open>N\<close>.
\<close>

definition is_prime :: "nat \<Rightarrow> bool" where
  "is_prime p = (1 < p \<and> (\<forall>d\<in>{2..<p}. \<not> d dvd p))"

fun crt_values_ok :: "nat \<Rightarrow> int list \<Rightarrow> nat \<Rightarrow> CRTValue list \<Rightarrow> bool" where
  "crt_values_ok d ps i [] = (2 + i = length ps)"
| "crt_values_ok d ps i (v # vs) =
     (2 + i < length ps \<and> crt_Exp v = d mod (nat (ps ! (2 + i)) - 1)
      \<and> crt_R v = prod_list (take (2 + i) ps)
      \<and> (crt_Coeff v * crt_R v) mod (ps ! (2 + i)) = 1
      \<and> crt_values_ok d ps (Suc i) vs)"

definition precomputed_ok :: "PrivateKey \<Rightarrow> bool" where
  "precomputed_ok priv =
     (case Precomputed priv of
        None \<Rightarrow> True
      | Some pre \<Rightarrow>
          Dp pre = rsa_D priv mod (nat (Primes priv ! 0) - 1)
          \<and> Dq pre = rsa_D priv mod (nat (Primes priv ! 1) - 1)
          \<and> (Qinv pre * (Primes priv ! 1)) mod (Primes priv ! 0) = 1
          \<and> crt_values_ok (rsa_D priv) (Primes priv) 0 (CRTValues pre))"

definition valid_key :: "PuzzleKey \<Rightarrow> bool" where
  "valid_key pk =
     (let priv = rsakey pk in
      2 \<le> length (Primes priv)
      \<and> list_all (\<lambda>p. 2 < p \<and> is_prime (nat p)) (Primes priv)
      \<and> distinct (Primes priv)
      \<and> rsa_N priv = prod_list (Primes priv)
      \<and> list_all (\<lambda>p. (rsa_E priv * rsa_D priv) mod (nat p - 1) = 1) (Primes priv)
      \<and> precomputed_ok priv
      \<and> (pk_factor pk * pk_inverse pk) mod rsa_N priv = 1)"

section \<open>Properties\<close>

subsection \<open>The transition predicate\<close>

lemma index_stateNames:
  "0 \<le> i \<Longrightarrow> i \<le> 10 \<Longrightarrow> index stateNames i = Ok (stateNames ! nat i)"
  by (simp add: index_def stateNames_def)

lemma ready_Ok_iff:
  "(ready s next = Ok ()) =
     (state s = StateInitial \<and> (next = StateEscrowComplete \<or> next = StateSolutionsPromised)
      \<or> state s \<noteq> StateInitial \<and> state s \<noteq> StateEscrowPublished
          \<and> state s \<noteq> StateSolutionPublished \<and> next = state s + 1)"
  by (simp add: ready_def bind_def state_defs split: res.splits)

text \<open>
  C1.  \<open>ready\<close> permits exactly the steps of the two chains.  From the initial state
  it succeeds exactly for EscrowComplete and SolutionsPromised; from EscrowPublished
  and SolutionPublished it fails for every request; from any other state it succeeds
  exactly when the request is the current state plus one; on the states of the two
  chains, success is exactly a step of one of the chains as the specification lists
  them.  A refused request that names a state is refused with an error: the
  final-stage error in a terminal state, the not-ready error elsewhere.
\<close>

theorem ready_transitions:
  "(state s = StateInitial \<longrightarrow>
      (ready s next = Ok ()) = (next = StateEscrowComplete \<or> next = StateSolutionsPromised))
   \<and> (state s = StateEscrowPublished \<or> state s = StateSolutionPublished \<longrightarrow>
        ready s next \<noteq> Ok () \<and>
        (0 \<le> next \<and> next \<le> 10 \<longrightarrow> ready s next = Err (ErrFinalStage (stateNames ! nat next))))
   \<and> (state s \<noteq> StateInitial \<and> state s \<noteq> StateEscrowPublished \<and>
        state s \<noteq> StateSolutionPublished \<longrightarrow>
        (ready s next = Ok ()) = (next = state s + 1))
   \<and> (state s \<in> set spec_payee_chain \<union> set spec_payer_chain \<longrightarrow>
        (ready s next = Ok ()) =
        ((state s, next) \<in> set (spec_steps spec_payee_chain) \<union> set (spec_steps spec_payer_chain)))
   \<and> (state s \<noteq> StateEscrowPublished \<and> state s \<noteq> StateSolutionPublished \<and>
        0 \<le> state s \<and> state s \<le> 10 \<and> 0 \<le> next \<and> next \<le> 10 \<and> ready s next \<noteq> Ok () \<longrightarrow>
        ready s next = Err (ErrNotReady (stateNames ! nat next) (stateNames ! nat (state s))))"
proof (intro conjI impI)
  assume "state s = StateInitial"
  then show "(ready s next = Ok ()) = (next = StateEscrowComplete \<or> next = StateSolutionsPromised)"
    by (auto simp: ready_def bind_def state_defs split: res.splits)
next
  assume "state s = StateEscrowPublished \<or> state s = StateSolutionPublished"
  then show "ready s next \<noteq> Ok ()"
    by (auto simp: ready_def bind_def state_defs split: res.splits)
next
  assume "state s = StateEscrowPublished \<or> state s = StateSolutionPublished"
    and "0 \<le> next \<and> next \<le> 10"
  then show "ready s next = Err (ErrFinalStage (stateNames ! nat next))"
    by (auto simp: ready_def bind_def index_stateNames state_defs)
next
  assume "state s \<noteq> StateInitial \<and> state s \<noteq> StateEscrowPublished \<and>
        state s \<noteq> StateSolutionPublished"
  then show "(ready s next = Ok ()) = (next = state s + 1)"
    by (auto simp: ready_def bind_def split: res.splits)
next
  assume "state s \<in> set spec_payee_chain \<union> set spec_payer_chain"
  then show "(ready s next = Ok ()) =
        ((state s, next) \<in> set (spec_steps spec_payee_chain) \<union> set (spec_steps spec_payer_chain))"
    unfolding ready_Ok_iff
    by (simp add: spec_payee_chain_def spec_payer_chain_def spec_steps_def state_defs)
      (elim disjE; auto)
next
  assume "state s \<noteq> StateEscrowPublished \<and> state s \<noteq> StateSolutionPublished \<and>
        0 \<le> state s \<and> state s \<le> 10 \<and> 0 \<le> next \<and> next \<le> 10 \<and> ready s next \<noteq> Ok ()"
  then show "ready s next = Err (ErrNotReady (stateNames ! nat next) (stateNames ! nat (state s)))"
    by (auto simp: ready_def bind_def index_stateNames split: if_splits)
qed

theorem ready_transitions_witness:
  "ready (zeroSession\<lparr>state := StateInitial\<rparr>) StateSolutionsPromised = Ok ()
   \<and> ready (zeroSession\<lparr>state := StateInitial\<rparr>) StatePuzzlesValidated
       = Err (ErrNotReady ''PuzzlesValidated'' ''InitialState'')
   \<and> ready (zeroSession\<lparr>state := StateEscrowPublished\<rparr>) StateEscrowComplete
       = Err (ErrFinalStage ''EscrowComplete'')
   \<and> ready (zeroSession\<lparr>state := StatePuzzlesPromised\<rparr>) StatePuzzlesValidated = Ok ()
   \<and> ready (zeroSession\<lparr>state := StateSolutionsValidated\<rparr>) StateSolutionPublished
       = Err (ErrNotReady ''SolutionPublished'' ''SolutionsValidated'')"
  using ready_transitions [of "zeroSession\<lparr>state := StateInitial\<rparr>" StateSolutionsPromised]
    ready_transitions [of "zeroSession\<lparr>state := StateInitial\<rparr>" StatePuzzlesValidated]
    ready_transitions [of "zeroSession\<lparr>state := StateEscrowPublished\<rparr>" StateEscrowComplete]
    ready_transitions [of "zeroSession\<lparr>state := StatePuzzlesPromised\<rparr>" StatePuzzlesValidated]
    ready_transitions [of "zeroSession\<lparr>state := StateSolutionsValidated\<rparr>" StateSolutionPublished]
  by (simp add: state_defs stateNames_def)


subsection \<open>Finalization\<close>

lemma Disconnect_log:
  "disconnect_log (fst (Disconnect tb s)) = disconnect_log tb @ [Cookie s]"
  by (simp add: Disconnect_def Let_def removeDeferredActions_def)

lemma Disconnect_session:
  "finsema (snd (Disconnect tb s)) = finsema s \<and> Cookie (snd (Disconnect tb s)) = Cookie s
   \<and> state (snd (Disconnect tb s)) = state s \<and> address (snd (Disconnect tb s)) = address s"
  by (simp add: Disconnect_def Let_def)

lemma FinalizeExchange_finished:
  "finsema s \<noteq> 0 \<Longrightarrow> snd (FinalizeExchange reason details (tb, s)) = (tb, s)"
  by (simp add: FinalizeExchange_def Let_def)

lemma FinalizeExchange_step:
  "snd (FinalizeExchange reason details (tb, s)) = (tb, s)
   \<or> (finsema s = 0
      \<and> finsema (snd (snd (FinalizeExchange reason details (tb, s)))) \<noteq> 0
      \<and> Cookie (snd (snd (FinalizeExchange reason details (tb, s)))) = Cookie s
      \<and> disconnect_log (fst (snd (FinalizeExchange reason details (tb, s))))
          = disconnect_log tb @ [Cookie s])"
  by (simp add: FinalizeExchange_def Let_def Disconnect_log Disconnect_session)

lemma finalize_calls_finished:
  "finsema s \<noteq> 0 \<Longrightarrow> finalize_calls cs (tb, s) = (tb, s)"
  by (induction cs) (simp_all add: FinalizeExchange_finished)

lemma finalize_calls_log:
  "disconnect_log (fst (finalize_calls cs (tb, s))) = disconnect_log tb
   \<or> disconnect_log (fst (finalize_calls cs (tb, s))) = disconnect_log tb @ [Cookie s]"
proof (induction cs arbitrary: tb s)
  case Nil
  show ?case by simp
next
  case (Cons c cs)
  obtain out tb' s' where fe: "FinalizeExchange (fst c) (snd c) (tb, s) = (out, tb', s')"
    by (cases "FinalizeExchange (fst c) (snd c) (tb, s)") auto
  from FinalizeExchange_step [of "fst c" "snd c" tb s] fe
  consider "tb' = tb" "s' = s"
    | "finsema s' \<noteq> 0" "disconnect_log tb' = disconnect_log tb @ [Cookie s]"
    by auto
  then show ?case
  proof cases
    case 1
    with fe Cons.IH [of tb s] show ?thesis by simp
  next
    case 2
    with fe finalize_calls_finished [of s' cs tb'] show ?thesis by simp
  qed
qed

text \<open>
  C8.  Finalization is one-shot and guarded.  A call on a session whose finalization
  semaphore is already taken leaves the tumbler and the session as they are (no
  cleanup), and returns unless the success guard panics.  A call with the reason
  success in a state that is neither EscrowPublished nor SolutionPublished panics with
  "no reason for success", changing nothing.  A call with one of the three other
  reasons returns from every named state; if the semaphore was free it takes it and
  runs \<open>Disconnect\<close>.  Over any sequence of calls on a session, \<open>Disconnect\<close> runs
  at most once.
\<close>

theorem FinalizeExchange_one_shot:
  "(finsema s \<noteq> 0 \<longrightarrow>
      snd (FinalizeExchange reason details (tb, s)) = (tb, s)
      \<and> (\<not> (reason = ReasonSuccess \<and> state s \<noteq> StateEscrowPublished
              \<and> state s \<noteq> StateSolutionPublished) \<longrightarrow>
           fst (FinalizeExchange reason details (tb, s)) = Ok ()))
   \<and> (reason = ReasonSuccess \<and> state s \<noteq> StateEscrowPublished
        \<and> state s \<noteq> StateSolutionPublished \<longrightarrow>
        FinalizeExchange reason details (tb, s)
          = (Panic (PanicMsg ''no reason for success''), tb, s))
   \<and> ((reason = ReasonSessionExpired \<or> reason = ReasonFailedExchange
         \<or> reason = ReasonInternalError) \<and> 0 \<le> state s \<and> state s \<le> 10 \<longrightarrow>
        FinalizeExchange reason details (tb, s)
          = (Ok (), if finsema s \<noteq> 0 then (tb, s) else Disconnect tb (s\<lparr>finsema := 1\<rparr>)))
   \<and> (disconnect_log (fst (finalize_calls calls (tb, s))) = disconnect_log tb
        \<or> disconnect_log (fst (finalize_calls calls (tb, s))) = disconnect_log tb @ [Cookie s])"
proof (intro conjI impI)
  assume "finsema s \<noteq> 0"
  then show "snd (FinalizeExchange reason details (tb, s)) = (tb, s)"
    by (rule FinalizeExchange_finished)
next
  assume "finsema s \<noteq> 0"
    and "\<not> (reason = ReasonSuccess \<and> state s \<noteq> StateEscrowPublished
              \<and> state s \<noteq> StateSolutionPublished)"
  then show "fst (FinalizeExchange reason details (tb, s)) = Ok ()"
    by (auto simp: FinalizeExchange_def Let_def)
next
  assume "reason = ReasonSuccess \<and> state s \<noteq> StateEscrowPublished
        \<and> state s \<noteq> StateSolutionPublished"
  then show "FinalizeExchange reason details (tb, s)
          = (Panic (PanicMsg ''no reason for success''), tb, s)"
    by (simp add: FinalizeExchange_def Let_def)
next
  assume a: "(reason = ReasonSessionExpired \<or> reason = ReasonFailedExchange
         \<or> reason = ReasonInternalError) \<and> 0 \<le> state s \<and> state s \<le> 10"
  then have r: "reason \<noteq> ReasonSuccess" "index reasonNames reason = Ok (reasonNames ! nat reason)"
    by (auto simp: reason_defs index_def reasonNames_def)
  from a have "String (snd (Disconnect tb (s\<lparr>finsema := 1\<rparr>)))
      = Ok (if length (address s) = 0 then ''not initialized''
            else address s @ '' state '' @ stateNames ! nat (state s))"
    by (simp add: String_def Disconnect_session index_stateNames bind_def)
  with r show "FinalizeExchange reason details (tb, s)
          = (Ok (), if finsema s \<noteq> 0 then (tb, s) else Disconnect tb (s\<lparr>finsema := 1\<rparr>))"
    by (simp add: FinalizeExchange_def Let_def bind_def)
next
  show "disconnect_log (fst (finalize_calls calls (tb, s))) = disconnect_log tb
        \<or> disconnect_log (fst (finalize_calls calls (tb, s))) = disconnect_log tb @ [Cookie s]"
    by (rule finalize_calls_log)
qed


theorem FinalizeExchange_one_shot_witness:
  "FinalizeExchange ReasonSuccess None
      ((NewTumbler defaultConfig)\<lparr>sessions := {[7]}, pending := [[7]]\<rparr>,
       zeroSession\<lparr>Cookie := [7], explist := True, state := StateOfferReceived\<rparr>)
     = (Panic (PanicMsg ''no reason for success''),
        (NewTumbler defaultConfig)\<lparr>sessions := {[7]}, pending := [[7]]\<rparr>,
        zeroSession\<lparr>Cookie := [7], explist := True, state := StateOfferReceived\<rparr>)
   \<and> FinalizeExchange ReasonFailedExchange None
      ((NewTumbler defaultConfig)\<lparr>sessions := {[7]}, pending := [[7]]\<rparr>,
       zeroSession\<lparr>Cookie := [7], explist := True, state := StateOfferReceived\<rparr>)
     = (Ok (),
        (NewTumbler defaultConfig)\<lparr>disconnect_log := [[7]]\<rparr>,
        zeroSession\<lparr>Cookie := [7], state := StateOfferReceived, finsema := 1\<rparr>)
   \<and> FinalizeExchange ReasonSessionExpired None
      ((NewTumbler defaultConfig)\<lparr>disconnect_log := [[7]]\<rparr>,
       zeroSession\<lparr>Cookie := [7], state := StateOfferReceived, finsema := 1\<rparr>)
     = (Ok (),
        (NewTumbler defaultConfig)\<lparr>disconnect_log := [[7]]\<rparr>,
        zeroSession\<lparr>Cookie := [7], state := StateOfferReceived, finsema := 1\<rparr>)
   \<and> disconnect_log (fst (finalize_calls
        [(ReasonSuccess, None), (ReasonFailedExchange, None), (ReasonSessionExpired, None),
         (ReasonInternalError, None)]
        ((NewTumbler defaultConfig)\<lparr>sessions := {[7]}, pending := [[7]]\<rparr>,
         zeroSession\<lparr>Cookie := [7], explist := True, state := StateOfferReceived\<rparr>)))
     = [[7]]"
proof -
  let ?tb = "(NewTumbler defaultConfig)\<lparr>sessions := {[7]}, pending := [[7]]\<rparr>"
  let ?s = "zeroSession\<lparr>Cookie := [7], explist := True, state := StateOfferReceived\<rparr>"
  let ?tb' = "(NewTumbler defaultConfig)\<lparr>disconnect_log := [[7]]\<rparr>"
  let ?s' = "zeroSession\<lparr>Cookie := [7], state := StateOfferReceived, finsema := 1\<rparr>"
  have d: "Disconnect ?tb (?s\<lparr>finsema := 1\<rparr>) = (?tb', ?s')"
    by (simp add: Disconnect_def removeDeferredActions_def NewTumbler_def zeroSession_def Let_def)
  have 1: "FinalizeExchange ReasonSuccess None (?tb, ?s)
      = (Panic (PanicMsg ''no reason for success''), ?tb, ?s)"
    using FinalizeExchange_one_shot [of ?s ReasonSuccess None ?tb "[]"]
    by (simp add: state_defs zeroSession_def)
  have 2: "FinalizeExchange ReasonFailedExchange None (?tb, ?s) = (Ok (), ?tb', ?s')"
    using FinalizeExchange_one_shot [of ?s ReasonFailedExchange None ?tb "[]"] d
    by (simp add: state_defs zeroSession_def)
  have 3: "FinalizeExchange ReasonSessionExpired None (?tb', ?s') = (Ok (), ?tb', ?s')"
    using FinalizeExchange_one_shot [of ?s' ReasonSessionExpired None ?tb' "[]"]
    by (simp add: state_defs zeroSession_def)
  have 4: "FinalizeExchange ReasonInternalError None (?tb', ?s') = (Ok (), ?tb', ?s')"
    using FinalizeExchange_one_shot [of ?s' ReasonInternalError None ?tb' "[]"]
    by (simp add: state_defs zeroSession_def)
  have 5: "disconnect_log (fst (finalize_calls
        [(ReasonSuccess, None), (ReasonFailedExchange, None), (ReasonSessionExpired, None),
         (ReasonInternalError, None)] (?tb, ?s))) = [[7]]"
    by (simp add: 1 2 3 4)
  from 1 2 3 5 show ?thesis by simp
qed


subsection \<open>The concrete environment\<close>

lemma toyEnv_rand_Int: "rand_Int toyEnv w n = Inr (7 mod n)"
  by (simp add: toyEnv_def)

lemma toyEnv_keygen:
  "rsa_GenerateMultiPrimeKey toyEnv w k bits =
    (if bits < 8
     then Inl (ErrMsg ''crypto/rsa: too few primes of given length to generate an RSA key'')
     else Inr toyKey)"
  by (simp add: toyEnv_def)

lemma toyKey_N: "rsa_N toyKey = 165"
  by (simp add: toyKey_def)

lemma toy_modInverse: "modInverse toyEnv 7 165 = Some 118"
  by code_simp

lemma toy_newBlindingFactor: "newBlindingFactor toyEnv 165 w = Some (Ok (7, 118), Suc w)"
  by (subst newBlindingFactor.simps) (simp add: randInt_def toyEnv_rand_Int toy_modInverse)

lemma toy_GeneratePuzzleKey:
  "GeneratePuzzleKey toyEnv 2048 w = Some (Ok toyPuzzleKey, Suc (Suc w))"
  by (simp add: GeneratePuzzleKey_def toyEnv_keygen toyPuzzleKey_def toyKey_N
      toy_newBlindingFactor)

lemma toy_GeneratePuzzleKey_fails:
  "GeneratePuzzleKey toyEnv 0 w =
    Some (Err (ErrMsg ''crypto/rsa: too few primes of given length to generate an RSA key''),
          Suc w)"
  by (simp add: GeneratePuzzleKey_def toyEnv_keygen)

subsection \<open>Epochs\<close>

lemma sint_add_no_wrap: "no_wrap d h \<Longrightarrow> sint (h + d) = sint h + sint d"
  by (simp add: no_wrap_def sint_word_ariths signed_take_bit_int_eq_self)

lemma expire_loop_none:
  "list_all (\<lambda>e. e \<noteq> None \<and> \<not> sint (BlockHeight (the e) + d) < sint bh) es
   \<Longrightarrow> expire_loop d bh es = Ok (es, 0)"
  by (induction es) (auto simp: bind_def)

lemma expire_loop_prefix:
  assumes "strictly_increasing es" "list_all (\<lambda>e. no_wrap d (BlockHeight (the e))) es"
  shows "\<exists>n. n \<le> length es \<and> expire_loop d bh es = Ok (replicate n None @ drop n es, n)"
  using assms
proof (induction es)
  case Nil
  then show ?case by simp
next
  case (Cons a es)
  then obtain e where a: "a = Some e" by (auto simp: strictly_increasing_def)
  from Cons.prems have si: "strictly_increasing es" and nw: "list_all (\<lambda>e. no_wrap d (BlockHeight (the e))) es"
    by (auto simp: strictly_increasing_def)
  show ?case
  proof (cases "sint (BlockHeight e + d) < sint bh")
    case True
    from Cons.IH [OF si nw] obtain n where n: "n \<le> length es"
      "expire_loop d bh es = Ok (replicate n None @ drop n es, n)" by blast
    with True a show ?thesis
      by (intro exI [of _ "Suc n"]) (simp add: bind_def)
  next
    case False
    have "list_all (\<lambda>x. x \<noteq> None \<and> \<not> sint (BlockHeight (the x) + d) < sint bh) es"
      unfolding list_all_iff
    proof
      fix x assume x: "x \<in> set es"
      with Cons.prems a have "x \<noteq> None" "sint (BlockHeight e) < sint (BlockHeight (the x))"
        "no_wrap d (BlockHeight (the x))" "no_wrap d (BlockHeight e)"
        by (auto simp: strictly_increasing_def list_all_iff)
      with False show "x \<noteq> None \<and> \<not> sint (BlockHeight (the x) + d) < sint bh"
        by (simp add: sint_add_no_wrap)
    qed
    then have "expire_loop d bh es = Ok (es, 0)" by (rule expire_loop_none)
    with False a show ?thesis
      by (intro exI [of _ 0]) (simp add: bind_def)
  qed
qed

lemma strictly_increasing_drop:
  "strictly_increasing es \<Longrightarrow> strictly_increasing (drop n es)"
  by (auto simp: strictly_increasing_def list_all_iff sorted_wrt_drop drop_map [symmetric] dest: in_set_dropD)

lemma sorted_wrt_le_last:
  "sorted_wrt (<) (xs :: int list) \<Longrightarrow> x \<in> set xs \<Longrightarrow> x \<le> last xs"
  by (induction xs) (auto simp: less_imp_le)

lemma strictly_increasing_snoc:
  assumes "strictly_increasing es"
    "es = [] \<or> (\<exists>l. last es = Some l \<and> sint (BlockHeight l) < sint (BlockHeight e))"
  shows "strictly_increasing (es @ [Some e])"
proof (cases "es = []")
  case True
  then show ?thesis by (simp add: strictly_increasing_def)
next
  case False
  with assms(2) obtain l where l: "last es = Some l" "sint (BlockHeight l) < sint (BlockHeight e)"
    by blast
  let ?hs = "map (\<lambda>e. sint (BlockHeight (the e))) es"
  from False l have "last ?hs = sint (BlockHeight l)" by (simp add: last_map)
  with assms(1) l have "\<forall>x\<in>set ?hs. x < sint (BlockHeight e)"
    using sorted_wrt_le_last [of ?hs] by (fastforce simp: strictly_increasing_def)
  with assms(1) show ?thesis
    by (simp add: strictly_increasing_def sorted_wrt_append)
qed

lemma last_drop_eq: "n < length es \<Longrightarrow> last (drop n es) = last es"
  by simp

lemma NewEpoch_bad_height:
  assumes "epochs tb \<noteq> []" "last (epochs tb) = Some l" "sint blockHeight \<le> sint (BlockHeight l)"
  shows "NewEpoch env blockHeight (w, tb) = Some (Err (ErrBadBlockHeight blockHeight), w, tb)"
  using assms by (simp add: NewEpoch_def Let_def)

lemma NewEpoch_keygen_error:
  assumes "epochs tb = [] \<or> (\<exists>l. last (epochs tb) = Some l \<and> sint (BlockHeight l) < sint blockHeight)"
    "GeneratePuzzleKey env (puzzleDifficulty tb) w = Some (Err e, w')"
  shows "NewEpoch env blockHeight (w, tb) = Some (Err e, w', tb)"
  using assms by (auto simp: NewEpoch_def Let_def)

lemma NewEpoch_success:
  assumes h: "epochs tb = [] \<or> (\<exists>l. last (epochs tb) = Some l \<and> sint (BlockHeight l) < sint blockHeight)"
    and k: "GeneratePuzzleKey env (puzzleDifficulty tb) w = Some (Ok pk, w')"
    and si: "strictly_increasing (epochs tb)"
    and nw: "list_all (\<lambda>e. no_wrap (epochDuration tb) (BlockHeight (the e))) (epochs tb)"
  shows "\<exists>n. n \<le> length (epochs tb) \<and> NewEpoch env blockHeight (w, tb) =
      Some (Ok (), w', tb\<lparr>epochs := drop n (epochs tb) @
          [Some \<lparr>ep_Address = [], ep_Pubkey = [], BlockHeight = blockHeight, puzzleKey = pk\<rparr>],
         lastEpoch := blockHeight\<rparr>)"
proof -
  from expire_loop_prefix [OF si nw, of blockHeight] obtain n where n: "n \<le> length (epochs tb)"
    "expire_loop (epochDuration tb) blockHeight (epochs tb)
      = Ok (replicate n None @ drop n (epochs tb), n)" by blast
  have "drop n (replicate n None @ drop n (epochs tb)) = drop n (epochs tb)" by simp
  with h k n show ?thesis
    by (intro exI [of _ n]) (auto simp: NewEpoch_def Let_def)
qed


lemma NewEpoch_keygen_other:
  assumes "epochs tb = [] \<or> (\<exists>l. last (epochs tb) = Some l \<and> sint (BlockHeight l) < sint blockHeight)"
  shows "GeneratePuzzleKey env (puzzleDifficulty tb) w = None
      \<Longrightarrow> NewEpoch env blockHeight (w, tb) = None"
    and "GeneratePuzzleKey env (puzzleDifficulty tb) w = Some (Panic p, w')
      \<Longrightarrow> NewEpoch env blockHeight (w, tb) = Some (Panic p, w', tb)"
  using assms by (auto simp: NewEpoch_def Let_def)

lemma NewEpoch_preserves:
  assumes inv: "epochs_inv tb" and nw: "no_wrap (epochDuration tb) blockHeight"
    and run: "NewEpoch env blockHeight (w, tb) = Some (r, w', tb')"
  shows "epochs_inv tb' \<and> epochDuration tb' = epochDuration tb \<and> (r \<noteq> Ok () \<longrightarrow> tb' = tb)"
proof -
  from inv have si: "strictly_increasing (epochs tb)"
    and nws: "list_all (\<lambda>e. no_wrap (epochDuration tb) (BlockHeight (the e))) (epochs tb)"
    by (simp_all add: epochs_inv_def)
  have lastSome: "\<exists>l. last (epochs tb) = Some l" if "epochs tb \<noteq> []"
  proof -
    from that have "last (epochs tb) \<in> set (epochs tb)" by simp
    with si show ?thesis by (auto simp: strictly_increasing_def list_all_iff)
  qed
  show ?thesis
  proof (cases "epochs tb \<noteq> [] \<and> sint blockHeight \<le> sint (BlockHeight (the (last (epochs tb))))")
    case True
    with lastSome obtain l where "last (epochs tb) = Some l" "sint blockHeight \<le> sint (BlockHeight l)"
      by auto
    with True NewEpoch_bad_height [of tb l blockHeight env w] run inv show ?thesis by simp
  next
    case False
    with lastSome have good: "epochs tb = []
        \<or> (\<exists>l. last (epochs tb) = Some l \<and> sint (BlockHeight l) < sint blockHeight)"
      by force
    show ?thesis
    proof (cases "GeneratePuzzleKey env (puzzleDifficulty tb) w")
      case None
      with NewEpoch_keygen_other(1) [OF good, of env w] run show ?thesis by simp
    next
      case (Some kw)
      obtain k w1 where kw: "kw = (k, w1)" by (cases kw)
      show ?thesis
      proof (cases k)
        case (Ok pk)
        let ?e = "\<lparr>ep_Address = [], ep_Pubkey = [], BlockHeight = blockHeight, puzzleKey = pk\<rparr>"
        from NewEpoch_success [OF good _ si nws, of env w pk w1] Some kw Ok run
        obtain n where n: "n \<le> length (epochs tb)"
          "tb' = tb\<lparr>epochs := drop n (epochs tb) @ [Some ?e], lastEpoch := blockHeight\<rparr>"
          and r: "r = Ok ()"
          by auto
        have d: "strictly_increasing (drop n (epochs tb))"
          using si by (rule strictly_increasing_drop)
        have "drop n (epochs tb) = []
            \<or> (\<exists>l. last (drop n (epochs tb)) = Some l
                  \<and> sint (BlockHeight l) < sint (BlockHeight ?e))"
        proof (cases "n < length (epochs tb)")
          case True
          then have "epochs tb \<noteq> []" by auto
          with good True show ?thesis by auto
        next
          case False
          then show ?thesis by simp
        qed
        with d have "strictly_increasing (drop n (epochs tb) @ [Some ?e])"
          by (rule strictly_increasing_snoc)
        moreover have "list_all (\<lambda>e. no_wrap (epochDuration tb) (BlockHeight (the e)))
            (drop n (epochs tb) @ [Some ?e])"
          using nws nw by (auto simp: list_all_iff dest: in_set_dropD)
        ultimately show ?thesis using n r by (simp add: epochs_inv_def)
      next
        case (Err e)
        with NewEpoch_keygen_error [OF good, of env w e w1] Some kw run inv show ?thesis by simp
      next
        case (Panic p)
        with NewEpoch_keygen_other(2) [OF good, of env w p w1] Some kw run inv
        show ?thesis by simp
      qed
    qed
  qed
qed

lemma new_epochs_preserve:
  "epochs_inv tb \<Longrightarrow> list_all (no_wrap (epochDuration tb)) hs
    \<Longrightarrow> new_epochs env hs (w, tb) = Some (w', tb') \<Longrightarrow> epochs_inv tb'"
proof (induction hs arbitrary: w tb)
  case Nil
  then show ?case by simp
next
  case (Cons h hs)
  from Cons.prems(3) obtain r w1 tb1 where 1: "NewEpoch env h (w, tb) = Some (r, w1, tb1)"
    and 2: "new_epochs env hs (w1, tb1) = Some (w', tb')"
    by (auto split: option.splits)
  from NewEpoch_preserves [OF Cons.prems(1) _ 1] Cons.prems(2)
  have "epochs_inv tb1" "epochDuration tb1 = epochDuration tb" by simp_all
  with Cons.IH [of tb1 w1] Cons.prems(2) 2 show ?case by simp
qed

text \<open>
  C4, as the code has it.  On an epoch list that is strictly increasing and whose
  heights do not wrap when the epoch duration is added: a height that is not above the
  latest epoch's is refused with the bad-block-height error and nothing changes; above
  it (or on an empty list), a key generation that fails makes \<open>NewEpoch\<close> fail with
  that error and nothing changes, and a key generation that succeeds makes it succeed,
  appending the new epoch to a suffix of the old list and publishing the height; so,
  given a generated key, \<open>NewEpoch\<close> succeeds exactly when the list is empty or the
  height is above the latest.  After any run of \<open>NewEpoch\<close> calls at heights that do
  not wrap, started on such a list (the empty one for instance), the list is strictly
  increasing.
\<close>

theorem NewEpoch_monotone:
  assumes inv: "epochs_inv tb"
  shows
    "(epochs tb \<noteq> [] \<and> sint blockHeight \<le> sint (BlockHeight (the (last (epochs tb)))) \<longrightarrow>
        NewEpoch env blockHeight (w, tb) = Some (Err (ErrBadBlockHeight blockHeight), w, tb))
     \<and> ((epochs tb = [] \<or> sint (BlockHeight (the (last (epochs tb)))) < sint blockHeight) \<longrightarrow>
          (\<forall>e w'. GeneratePuzzleKey env (puzzleDifficulty tb) w = Some (Err e, w') \<longrightarrow>
             NewEpoch env blockHeight (w, tb) = Some (Err e, w', tb))
          \<and> (\<forall>pk w'. GeneratePuzzleKey env (puzzleDifficulty tb) w = Some (Ok pk, w') \<longrightarrow>
             (\<exists>n \<le> length (epochs tb).
                NewEpoch env blockHeight (w, tb) =
                  Some (Ok (), w',
                    tb\<lparr>epochs := drop n (epochs tb) @
                          [Some \<lparr>ep_Address = [], ep_Pubkey = [], BlockHeight = blockHeight,
                                 puzzleKey = pk\<rparr>],
                       lastEpoch := blockHeight\<rparr>))))
     \<and> (\<forall>pk w'. GeneratePuzzleKey env (puzzleDifficulty tb) w = Some (Ok pk, w') \<longrightarrow>
          ((\<exists>w2 tb2. NewEpoch env blockHeight (w, tb) = Some (Ok (), w2, tb2))
            = (epochs tb = [] \<or> sint (BlockHeight (the (last (epochs tb)))) < sint blockHeight)))
     \<and> (\<forall>hs w' tb'. list_all (no_wrap (epochDuration tb)) hs
            \<and> new_epochs env hs (w, tb) = Some (w', tb') \<longrightarrow>
          strictly_increasing (epochs tb'))"
proof -
  from inv have si: "strictly_increasing (epochs tb)"
    and nws: "list_all (\<lambda>e. no_wrap (epochDuration tb) (BlockHeight (the e))) (epochs tb)"
    by (simp_all add: epochs_inv_def)
  have lastSome: "last (epochs tb) = Some (the (last (epochs tb)))" if "epochs tb \<noteq> []"
  proof -
    from that have "last (epochs tb) \<in> set (epochs tb)" by simp
    with si show ?thesis by (auto simp: strictly_increasing_def list_all_iff)
  qed
  have bad: "NewEpoch env blockHeight (w, tb) = Some (Err (ErrBadBlockHeight blockHeight), w, tb)"
    if "epochs tb \<noteq> [] \<and> sint blockHeight \<le> sint (BlockHeight (the (last (epochs tb))))"
    using that lastSome NewEpoch_bad_height [of tb "the (last (epochs tb))" blockHeight env w]
    by simp
  have good: "epochs tb = []
        \<or> (\<exists>l. last (epochs tb) = Some l \<and> sint (BlockHeight l) < sint blockHeight)"
    if "epochs tb = [] \<or> sint (BlockHeight (the (last (epochs tb)))) < sint blockHeight"
    using that lastSome by metis
  have kerr: "NewEpoch env blockHeight (w, tb) = Some (Err e, w', tb)"
    if "epochs tb = [] \<or> sint (BlockHeight (the (last (epochs tb)))) < sint blockHeight"
      "GeneratePuzzleKey env (puzzleDifficulty tb) w = Some (Err e, w')" for e w'
    using NewEpoch_keygen_error [OF good [OF that(1)] that(2)] .
  have kok: "\<exists>n \<le> length (epochs tb).
      NewEpoch env blockHeight (w, tb) =
        Some (Ok (), w',
          tb\<lparr>epochs := drop n (epochs tb) @
                [Some \<lparr>ep_Address = [], ep_Pubkey = [], BlockHeight = blockHeight,
                       puzzleKey = pk\<rparr>],
             lastEpoch := blockHeight\<rparr>)"
    if "epochs tb = [] \<or> sint (BlockHeight (the (last (epochs tb)))) < sint blockHeight"
      "GeneratePuzzleKey env (puzzleDifficulty tb) w = Some (Ok pk, w')" for pk w'
    using NewEpoch_success [OF good [OF that(1)] that(2) si nws] by blast
  have iff: "(\<exists>w2 tb2. NewEpoch env blockHeight (w, tb) = Some (Ok (), w2, tb2))
      = (epochs tb = [] \<or> sint (BlockHeight (the (last (epochs tb)))) < sint blockHeight)"
    if k: "GeneratePuzzleKey env (puzzleDifficulty tb) w = Some (Ok pk, w')" for pk w'
  proof (cases "epochs tb = [] \<or> sint (BlockHeight (the (last (epochs tb)))) < sint blockHeight")
    case True
    with kok [OF True k] show ?thesis by auto
  next
    case False
    then have "epochs tb \<noteq> [] \<and> sint blockHeight \<le> sint (BlockHeight (the (last (epochs tb))))"
      by auto
    from bad [OF this] False show ?thesis by simp
  qed
  have seq: "strictly_increasing (epochs tb')"
    if "list_all (no_wrap (epochDuration tb)) hs \<and> new_epochs env hs (w, tb) = Some (w', tb')"
    for hs w' tb'
    using new_epochs_preserve [OF inv, of hs env w w' tb'] that by (simp add: epochs_inv_def)
  from bad kerr kok iff seq show ?thesis by blast
qed


lemma toy_NewEpoch_first:
  "NewEpoch toyEnv 1234 (0, NewTumbler defaultConfig) =
    Some (Ok (), 2,
      (NewTumbler defaultConfig)\<lparr>epochs := [Some (toyEpoch 1234)], lastEpoch := 1234\<rparr>)"
  by (simp add: NewEpoch_def NewTumbler_def defaultConfig_def PuzzleDifficulty_def
      toy_GeneratePuzzleKey toyEpoch_def)

lemma toy_NewEpoch_again:
  "NewEpoch toyEnv 1234
      (2, (NewTumbler defaultConfig)\<lparr>epochs := [Some (toyEpoch 1234)], lastEpoch := 1234\<rparr>) =
    Some (Err (ErrBadBlockHeight 1234), 2,
      (NewTumbler defaultConfig)\<lparr>epochs := [Some (toyEpoch 1234)], lastEpoch := 1234\<rparr>)"
  by (simp add: NewEpoch_def NewTumbler_def toyEpoch_def)

lemma toy_NewEpoch_next:
  "NewEpoch toyEnv 1250
      (2, (NewTumbler defaultConfig)\<lparr>epochs := [Some (toyEpoch 1234)], lastEpoch := 1234\<rparr>) =
    Some (Ok (), 4,
      (NewTumbler defaultConfig)\<lparr>epochs := [Some (toyEpoch 1250)], lastEpoch := 1250\<rparr>)"
  by (simp add: NewEpoch_def NewTumbler_def defaultConfig_def PuzzleDifficulty_def
      EpochDuration_def toy_GeneratePuzzleKey toyEpoch_def bind_def)

theorem NewEpoch_monotone_witness:
  "epochs_inv (NewTumbler defaultConfig)
   \<and> epochs_inv ((NewTumbler defaultConfig)\<lparr>epochs := [Some (toyEpoch 1234)], lastEpoch := 1234\<rparr>)
   \<and> NewEpoch toyEnv 1234
        (2, (NewTumbler defaultConfig)\<lparr>epochs := [Some (toyEpoch 1234)], lastEpoch := 1234\<rparr>)
      = Some (Err (ErrBadBlockHeight 1234), 2,
          (NewTumbler defaultConfig)\<lparr>epochs := [Some (toyEpoch 1234)], lastEpoch := 1234\<rparr>)
   \<and> (\<exists>w2 tb2. NewEpoch toyEnv 1250
        (2, (NewTumbler defaultConfig)\<lparr>epochs := [Some (toyEpoch 1234)], lastEpoch := 1234\<rparr>)
      = Some (Ok (), w2, tb2))
   \<and> list_all (no_wrap (epochDuration (NewTumbler defaultConfig))) [1234, 1234, 1250]
   \<and> new_epochs toyEnv [1234, 1234, 1250] (0, NewTumbler defaultConfig)
      = Some (4, (NewTumbler defaultConfig)\<lparr>epochs := [Some (toyEpoch 1250)], lastEpoch := 1250\<rparr>)
   \<and> strictly_increasing
       (epochs ((NewTumbler defaultConfig)\<lparr>epochs := [Some (toyEpoch 1250)], lastEpoch := 1250\<rparr>))"
proof -
  let ?tb0 = "NewTumbler defaultConfig"
  let ?tb1 = "(NewTumbler defaultConfig)\<lparr>epochs := [Some (toyEpoch 1234)], lastEpoch := 1234\<rparr>"
  let ?tb2 = "(NewTumbler defaultConfig)\<lparr>epochs := [Some (toyEpoch 1250)], lastEpoch := 1250\<rparr>"
  have inv0: "epochs_inv ?tb0"
    by (simp add: epochs_inv_def strictly_increasing_def NewTumbler_def)
  have inv1: "epochs_inv ?tb1"
    by (simp add: epochs_inv_def strictly_increasing_def NewTumbler_def no_wrap_def toyEpoch_def
        defaultConfig_def EpochDuration_def)
  have nw: "list_all (no_wrap (epochDuration ?tb0)) [1234, 1234, 1250]"
    by (simp add: no_wrap_def NewTumbler_def defaultConfig_def EpochDuration_def)
  have run: "new_epochs toyEnv [1234, 1234, 1250] (0, ?tb0) = Some (4, ?tb2)"
    by (simp add: toy_NewEpoch_first toy_NewEpoch_again toy_NewEpoch_next)
  have k: "GeneratePuzzleKey toyEnv (puzzleDifficulty ?tb1) 2 = Some (Ok toyPuzzleKey, 4)"
    by (simp add: NewTumbler_def defaultConfig_def PuzzleDifficulty_def toy_GeneratePuzzleKey)
  have bad: "NewEpoch toyEnv 1234 (2, ?tb1) = Some (Err (ErrBadBlockHeight 1234), 2, ?tb1)"
    using NewEpoch_monotone [OF inv1, of 1234 toyEnv 2] by (simp add: toyEpoch_def)
  have good: "\<exists>w2 tb2. NewEpoch toyEnv 1250 (2, ?tb1) = Some (Ok (), w2, tb2)"
    using NewEpoch_monotone [OF inv1, of 1250 toyEnv 2] k by (simp add: toyEpoch_def)
  have incr: "strictly_increasing (epochs ?tb2)"
    using NewEpoch_monotone [OF inv0, of 0 toyEnv 0] nw run by blast
  from inv0 inv1 bad good nw run incr show ?thesis by blast
qed

text \<open>
  The claim as stated fails where key generation fails: on a tumbler configured with a
  puzzle difficulty of zero bits the epoch list is empty, yet \<open>NewEpoch\<close> returns the
  key generator's error (not the bad-block-height error).
\<close>

theorem NewEpoch_counterexample:
  "epochs (NewTumbler (defaultConfig\<lparr>cfg_PuzzleDifficulty := 0\<rparr>)) = []
   \<and> NewEpoch toyEnv 1234 (0, NewTumbler (defaultConfig\<lparr>cfg_PuzzleDifficulty := 0\<rparr>)) =
      Some (Err (ErrMsg ''crypto/rsa: too few primes of given length to generate an RSA key''),
            1, NewTumbler (defaultConfig\<lparr>cfg_PuzzleDifficulty := 0\<rparr>))"
  by (simp add: NewEpoch_def NewTumbler_def toy_GeneratePuzzleKey_fails)

text \<open>
  Where adding the epoch duration wraps, the expiry loop sets an entry to nil that the
  reslicing keeps: after epochs at heights \<open>2^31 - 12\<close> and \<open>2^31 - 5\<close>, the call at
  \<open>2^31 - 3\<close> leaves a nil entry in front of the new epoch, and the next call panics.
\<close>

lemma NewEpoch_wrap_keeps_nil:
  "NewEpoch toyEnv 2147483645
      (0, (NewTumbler defaultConfig)
            \<lparr>epochs := [Some (toyEpoch 2147483636), Some (toyEpoch 2147483643)],
             lastEpoch := 2147483643\<rparr>) =
    Some (Ok (), 2,
      (NewTumbler defaultConfig)\<lparr>epochs := [None, Some (toyEpoch 2147483645)],
                                   lastEpoch := 2147483645\<rparr>)
   \<and> NewEpoch toyEnv 2147483646
      (2, (NewTumbler defaultConfig)\<lparr>epochs := [None, Some (toyEpoch 2147483645)],
                                       lastEpoch := 2147483645\<rparr>) =
    Some (Panic NilDereference, 4,
      (NewTumbler defaultConfig)\<lparr>epochs := [None, Some (toyEpoch 2147483645)],
                                   lastEpoch := 2147483645\<rparr>)"
  by (simp add: NewEpoch_def NewTumbler_def defaultConfig_def PuzzleDifficulty_def
      EpochDuration_def toy_GeneratePuzzleKey toyEpoch_def bind_def)


subsection \<open>The index-list codec\<close>

lemma getUint16_putUint16: "getUint16 (ucast v) (ucast (drop_bit 8 v)) = v"
  unfolding getUint16_def
  by (rule bit_word_eqI) (auto simp: bit_simps)

lemma uint_word_of_int_16: "0 \<le> i \<Longrightarrow> i \<le> 65535 \<Longrightarrow> uint (word_of_int i :: 16 word) = i"
  by (simp add: uint_word_of_int take_bit_int_eq_self)

lemma EncodeIndexList_ok:
  "list_all (\<lambda>i. 0 \<le> i \<and> i \<le> 65535) xs \<Longrightarrow>
    \<exists>bs. EncodeIndexList xs = Ok bs \<and> length bs = 2 * length xs \<and> decode_loop bs = Ok xs"
proof (induction xs)
  case Nil
  then show ?case by simp
next
  case (Cons i xs)
  then obtain bs where bs: "EncodeIndexList xs = Ok bs" "length bs = 2 * length xs" "decode_loop bs = Ok xs"
    by auto
  from Cons.prems have i: "0 \<le> i" "i \<le> 65535" by simp_all
  with bs show ?case
    by (simp add: bind_def putUint16_def getUint16_putUint16 uint_word_of_int_16)
qed

lemma EncodeIndexList_err:
  "\<not> list_all (\<lambda>i. 0 \<le> i \<and> i \<le> 65535) xs \<Longrightarrow> EncodeIndexList xs = Err (ErrMsg ''index out of bounds'')"
  by (induction xs) (auto simp: bind_def)

lemma decode_loop_even: "even (length bs) \<Longrightarrow> \<exists>xs. decode_loop bs = Ok xs \<and> 2 * length xs = length bs"
  by (induction bs rule: decode_loop.induct) (auto simp: bind_def)


text \<open>
  C7.  For every list of integers in \<open>[0, 65535]\<close>, \<open>EncodeIndexList\<close> succeeds and
  \<open>DecodeIndexList\<close> of the encoding returns the list; \<open>EncodeIndexList\<close> returns an
  error on every list with a value below 0 or above 65535 (on \<open>[-1]\<close> and \<open>[65536]\<close>
  for instance); \<open>DecodeIndexList\<close> returns an error exactly on the byte strings of
  odd length, and a list otherwise.
\<close>

theorem index_list_codec:
  "(list_all (\<lambda>i. 0 \<le> i \<and> i \<le> 65535) xs \<longrightarrow>
      (\<exists>bs. EncodeIndexList xs = Ok bs \<and> DecodeIndexList bs = Ok xs))
   \<and> (\<not> list_all (\<lambda>i. 0 \<le> i \<and> i \<le> 65535) xs \<longrightarrow> (\<exists>e. EncodeIndexList xs = Err e))
   \<and> (\<exists>e. EncodeIndexList [- 1] = Err e)
   \<and> (\<exists>e. EncodeIndexList [65536] = Err e)
   \<and> ((\<exists>e. DecodeIndexList bs = Err e) = odd (length bs))
   \<and> (even (length bs) \<longrightarrow> (\<exists>ys. DecodeIndexList bs = Ok ys))"
proof (intro conjI impI)
  assume "list_all (\<lambda>i. 0 \<le> i \<and> i \<le> 65535) xs"
  from EncodeIndexList_ok [OF this] obtain bs0 where
    "EncodeIndexList xs = Ok bs0" "length bs0 = 2 * length xs" "decode_loop bs0 = Ok xs"
    by blast
  then have "EncodeIndexList xs = Ok bs0 \<and> DecodeIndexList bs0 = Ok xs"
    by (simp add: DecodeIndexList_def)
  then show "\<exists>bs. EncodeIndexList xs = Ok bs \<and> DecodeIndexList bs = Ok xs" ..
next
  assume "\<not> list_all (\<lambda>i. 0 \<le> i \<and> i \<le> 65535) xs"
  from EncodeIndexList_err [OF this] show "\<exists>e. EncodeIndexList xs = Err e" by simp
next
  show "\<exists>e. EncodeIndexList [- 1] = Err e" by simp
next
  show "\<exists>e. EncodeIndexList [65536] = Err e" by simp
next
  show "(\<exists>e. DecodeIndexList bs = Err e) = odd (length bs)"
    using decode_loop_even [of bs] by (auto simp: DecodeIndexList_def even_iff_mod_2_eq_zero)
next
  assume "even (length bs)"
  with decode_loop_even [of bs] show "\<exists>ys. DecodeIndexList bs = Ok ys"
    by (auto simp: DecodeIndexList_def even_iff_mod_2_eq_zero)
qed

theorem index_list_codec_witness:
  "EncodeIndexList [0, 65535, 258] = Ok [0, 0, 255, 255, 2, 1]
   \<and> DecodeIndexList [0, 0, 255, 255, 2, 1] = Ok [0, 65535, 258]
   \<and> EncodeIndexList [3, 65536] = Err (ErrMsg ''index out of bounds'')
   \<and> DecodeIndexList [1, 0, 2] = Err (ErrMsg ''bad list length'')"
proof -
  have e: "EncodeIndexList [0, 65535, 258] = Ok [0, 0, 255, 255, 2, 1]"
    by (simp add: bind_def putUint16_def)
  have "\<exists>b. EncodeIndexList [0, 65535, 258] = Ok b \<and> DecodeIndexList b = Ok [0, 65535, 258]"
    using index_list_codec [of "[0, 65535, 258]" "[1, 0, 2]"] by simp
  with e have d: "DecodeIndexList [0, 0, 255, 255, 2, 1] = Ok [0, 65535, 258]" by simp
  have x: "EncodeIndexList [3, 65536] = Err (ErrMsg ''index out of bounds'')"
    using index_list_codec [of "[3, 65536]" "[1, 0, 2]"] by (simp add: bind_def)
  have o: "DecodeIndexList [1, 0, 2] = Err (ErrMsg ''bad list length'')"
    using index_list_codec [of "[3, 65536]" "[1, 0, 2]"] by (simp add: DecodeIndexList_def)
  from e d x o show ?thesis by simp
qed


subsection \<open>Handlers and the state latch\<close>

lemma FinalizeExchange_state:
  "state (snd (snd (FinalizeExchange reason details (tb, s)))) = state s
   \<and> err (snd (snd (FinalizeExchange reason details (tb, s)))) = err s"
  by (simp add: FinalizeExchange_def Let_def Disconnect_def)

lemma FinalizeExchange_not_Err: "fst (FinalizeExchange reason details ts) \<noteq> Err e"
  by (auto simp: FinalizeExchange_def Let_def bind_def String_def index_def split: res.splits if_splits)

lemma SetupEscrow_error:
  "SetupEscrow env er (w, tb, s) = (Err e, w', tb', s') \<Longrightarrow> state s' = state s"
  by (auto simp: SetupEscrow_def Let_def split: res.splits prod.splits option.splits)

lemma GetPuzzlePromises_error:
  "GetPuzzlePromises env cp (w, tb, s) = (Err e, w', tb', s') \<Longrightarrow> state s' = state s"
  by (auto simp: GetPuzzlePromises_def Let_def split: res.splits prod.splits sum.splits)

lemma ValidatePuzzles_error:
  "ValidatePuzzles env cd (w, tb, s) = (Err e, w', tb', s') \<Longrightarrow> state s' = state s"
  unfolding ValidatePuzzles_def Let_def
  by (simp split: res.splits)

lemma FinalizeEscrow_error:
  "FinalizeEscrow env (w, tb, s) = (Err e, w', tb', s') \<Longrightarrow> state s' = state s"
  using FinalizeExchange_not_Err
  by (auto simp: FinalizeEscrow_def Let_def split: res.splits prod.splits option.splits)

lemma GetSolutionPromises_error:
  "GetSolutionPromises env sc (w, tb, s) = (Err e, w', tb', s') \<Longrightarrow> state s' = state s"
  by (auto simp: GetSolutionPromises_def Let_def split: res.splits prod.splits)

lemma ValidateSolutions_error:
  "ValidateSolutions env pd (w, tb, s) = (Err e, w', tb', s') \<Longrightarrow> state s' = state s"
  unfolding ValidateSolutions_def Let_def
  by (simp split: res.splits)


lemma fail_exchange_state:
  "fail_exchange e (w, tb, s) = (r, w', tb', s') \<Longrightarrow> state s' = state s"
  using FinalizeExchange_state [of ReasonFailedExchange None tb "s\<lparr>err := Some e\<rparr>"]
  by (auto simp: fail_exchange_def Let_def)

lemma FinalizeExchange_result:
  "FinalizeExchange reason details (tb, s) = (out, tb', s') \<Longrightarrow>
    state s' = state s \<and> err s' = err s \<and> (\<forall>e. out \<noteq> Err e)"
  using FinalizeExchange_state [of reason details tb s]
    FinalizeExchange_not_Err [of reason details "(tb, s)"]
  by auto

lemma PublishSolution_state:
  assumes "PublishSolution env scs (w, tb, s) = (r, w', tb', s')"
  shows "err s' = err s \<and> ((\<exists>e. r = Err e) \<longrightarrow> state s' = state s)
    \<and> (state s' = state s \<or> state s' = StateSolutionPublished)"
proof (cases "contract s")
  case None
  with assms show ?thesis by (auto simp: PublishSolution_def Let_def)
next
  case (Some c)
  obtain c1 eo where p: "wallet_PublishSolution env w c scs = (c1, eo)"
    by (cases "wallet_PublishSolution env w c scs") auto
  show ?thesis
  proof (cases eo)
    case (Some e)
    with \<open>contract s = Some c\<close> p assms show ?thesis
      by (auto simp: PublishSolution_def Let_def)
  next
    case None
    let ?s1 = "s\<lparr>contract := Some c1, state := StateSolutionPublished\<rparr>"
    obtain out tb2 s2 where f: "FinalizeExchange ReasonSuccess None (tb, ?s1) = (out, tb2, s2)"
      by (cases "FinalizeExchange ReasonSuccess None (tb, ?s1)") auto
    from FinalizeExchange_result [OF f]
    have "state s2 = StateSolutionPublished" "err s2 = err s" "\<forall>e. out \<noteq> Err e" by simp_all
    moreover from None \<open>contract s = Some c\<close> p f assms have "r = out" "s' = s2"
      by (simp_all add: PublishSolution_def Let_def)
    ultimately show ?thesis by simp
  qed
qed

lemma validateOffer_state:
  assumes "validateOffer env po (w, tb, s) = (r, w', tb', s')"
  shows "state s' = state s \<or> (state s' = StateSolutionPublished \<and> err s' = err s)"
proof (cases "ready s StateSolutionPublished")
  case (Ok u)
  show ?thesis
  proof (cases "contract s")
    case None
    with Ok assms show ?thesis by (auto simp: validateOffer_def Let_def)
  next
    case (Some c)
    obtain c1 valid eo where v: "wallet_ValidateOffer env w c (po_EscrowHash po) = (c1, valid, eo)"
      by (cases "wallet_ValidateOffer env w c (po_EscrowHash po)") auto
    let ?s1 = "s\<lparr>contract := Some c1\<rparr>"
    show ?thesis
    proof (cases eo)
      case (Some e)
      with Ok \<open>contract s = Some c\<close> v assms fail_exchange_state [of _ "Suc w" tb ?s1 r w' tb' s']
      show ?thesis by (simp add: validateOffer_def Let_def)
    next
      case None
      note eo = None
      show ?thesis
      proof (cases "valid")
        case False
        with Ok \<open>contract s = Some c\<close> v eo assms
          fail_exchange_state [of _ "Suc (Suc w)" tb ?s1 r w' tb' s']
        show ?thesis by (auto simp: validateOffer_def Let_def split: if_splits)
      next
        case True
        show ?thesis
        proof (cases "copy_loop (puzzles ?s1) (realPuzzleList ?s1)")
          case (Ok hashes)
          note cl = Ok
          show ?thesis
          proof (cases "RevealSolution po (tb, ?s1)")
            case (Ok scs)
            obtain r3 w3 tb3 s3 where ps: "PublishSolution env scs (Suc (Suc w), tb, ?s1) = (r3, w3, tb3, s3)"
              by (cases "PublishSolution env scs (Suc (Suc w), tb, ?s1)") auto
            from PublishSolution_state [OF ps]
            have 3: "err s3 = err s" "(\<exists>e. r3 = Err e) \<longrightarrow> state s3 = state s"
              "state s3 = state s \<or> state s3 = StateSolutionPublished" by simp_all
            from \<open>ready s StateSolutionPublished = Ok u\<close> \<open>contract s = Some c\<close> v eo True cl Ok ps assms
            have "(\<exists>e. r3 = Err e \<and> fail_exchange e (w3, tb3, s3) = (r, w', tb', s'))
                \<or> s' = s3"
              by (auto simp: validateOffer_def Let_def split: res.splits)
            with 3 fail_exchange_state show ?thesis by fastforce
          next
            case (Err e)
            with \<open>ready s StateSolutionPublished = Ok u\<close> \<open>contract s = Some c\<close> v eo True cl assms
              fail_exchange_state [of e "Suc (Suc w)" tb ?s1 r w' tb' s']
            show ?thesis by (simp add: validateOffer_def Let_def)
          next
            case (Panic p)
            with \<open>ready s StateSolutionPublished = Ok u\<close> \<open>contract s = Some c\<close> v eo True cl assms
            show ?thesis by (auto simp: validateOffer_def Let_def)
          qed
        next
          case (Err e)
          with Ok \<open>contract s = Some c\<close> v eo True assms
          show ?thesis by (auto simp: validateOffer_def Let_def)
        next
          case (Panic p)
          with Ok \<open>contract s = Some c\<close> v eo True assms
          show ?thesis by (auto simp: validateOffer_def Let_def)
        qed
      qed
    qed
  qed
next
  case (Err e)
  with assms fail_exchange_state [of e w tb s r w' tb' s'] show ?thesis
    by (simp add: validateOffer_def Let_def)
next
  case (Panic p)
  with assms show ?thesis by (auto simp: validateOffer_def Let_def)
qed


lemma ready_OfferReceived:
  "ready s StateOfferReceived = Ok u \<Longrightarrow> state s = StateSolutionsValidated"
  using ready_Ok_iff [of s StateOfferReceived] by (auto simp: state_defs)

lemma PaymentOffer_split:
  "PaymentOffer env po sys =
     (case PaymentOffer_before_latch env po sys of
        (Ok u, sys1) \<Rightarrow> PaymentOffer_after_latch env po sys1
      | (Err e, sys1) \<Rightarrow> (Err e, sys1)
      | (Panic p, sys1) \<Rightarrow> (Panic p, sys1))"
  by (simp add: PaymentOffer_def PaymentOffer_before_latch_def PaymentOffer_after_latch_def Let_def
      split: res.splits prod.splits option.splits)


lemma before_latch_state:
  assumes "PaymentOffer_before_latch env po (w, tb, s) = (r, w', tb', s')"
  shows "state s' = state s \<and> err s' = err s"
  using assms
  by (auto simp: PaymentOffer_before_latch_def Let_def
      split: if_splits res.splits prod.splits option.splits)

lemma before_latch_ready:
  assumes "PaymentOffer_before_latch env po (w, tb, s) = (Ok u, w', tb', s')"
  shows "state s = StateSolutionsValidated"
proof (cases "ready s StateOfferReceived")
  case (Ok v)
  then show ?thesis by (rule ready_OfferReceived)
next
  case (Err e)
  with assms show ?thesis by (simp add: PaymentOffer_before_latch_def)
next
  case (Panic p)
  with assms show ?thesis by (simp add: PaymentOffer_before_latch_def)
qed

lemma after_latch_error:
  assumes "PaymentOffer_after_latch env po (w, tb, s) = (Err e, w', tb', s')"
  shows "state s' = StateOfferReceived \<or> (state s' = StateSolutionPublished \<and> err s \<noteq> None)"
  using assms
  by (auto simp: PaymentOffer_after_latch_def Let_def
      split: if_splits res.splits prod.splits option.splits dest!: validateOffer_state)

lemma before_latch_error:
  assumes "PaymentOffer_before_latch env po (w, tb, s) = (Err e, w', tb', s')"
  shows "PaymentOffer env po (w, tb, s) = (Err e, w', tb', s') \<and> state s' = state s"
  using assms before_latch_state [OF assms] by (simp add: PaymentOffer_split)

lemma PaymentOffer_error_cases:
  assumes "PaymentOffer env po (w, tb, s) = (Err e, w', tb', s')"
  shows "PaymentOffer_before_latch env po (w, tb, s) = (Err e, w', tb', s')
    \<or> (fst (PaymentOffer_before_latch env po (w, tb, s)) = Ok ()
        \<and> state s = StateSolutionsValidated
        \<and> (state s' = StateOfferReceived
            \<or> (state s' = StateSolutionPublished \<and> err s \<noteq> None)))"
proof -
  obtain r w1 tb1 s1 where b: "PaymentOffer_before_latch env po (w, tb, s) = (r, w1, tb1, s1)"
    by (cases "PaymentOffer_before_latch env po (w, tb, s)") auto
  show ?thesis
  proof (cases r)
    case (Ok u)
    with assms b have a: "PaymentOffer_after_latch env po (w1, tb1, s1) = (Err e, w', tb', s')"
      by (simp add: PaymentOffer_split)
    from before_latch_state [OF b] have e: "err s1 = err s" by simp
    from before_latch_ready [OF b [unfolded Ok]] after_latch_error [OF a] e b Ok
    show ?thesis by auto
  next
    case (Err e0)
    with assms b show ?thesis by (simp add: PaymentOffer_split)
  next
    case (Panic p)
    with assms b show ?thesis by (simp add: PaymentOffer_split)
  qed
qed

subsection \<open>Concrete runs of the handlers\<close>

lemma toy_getPuzzleKey: "getPuzzleKey toyTumbler 1234 = Ok toyPuzzleKey"
  by (simp add: getPuzzleKey_def toyTumbler_def toyEpoch_def)

lemma toy_decode1: "DecodeIndexList [1, 0] = Ok [1]" "DecodeIndexList [2, 0] = Ok [2]"
  "DecodeIndexList [0, 0] = Ok [0]" "DecodeIndexList [] = Ok []"
  by (simp_all add: DecodeIndexList_def bind_def getUint16_def)

lemma toy_ValidateSolutions_at_length: "ValidateSolutions toyEnv \<lparr>pd_FakePuzzleList = [1, 0], pd_FakeFactors = [[2]]\<rparr>
      (0, toyTumbler, toyPayer) = (Panic IndexOutOfRange, 0, toyTumbler, toyPayer)"
  by (simp add: ValidateSolutions_def ready_def toy_decode1 toy_getPuzzleKey bind_def index_def
     toyPayer_def zeroSession_def state_defs)

lemma toy_ValidateSolutions_beyond: "ValidateSolutions toyEnv \<lparr>pd_FakePuzzleList = [2, 0], pd_FakeFactors = [[2]]\<rparr>
      (0, toyTumbler, toyPayer) = (Err (ErrMsg ''bad puzzle reference''), 0, toyTumbler, toyPayer)"
  by (simp add: ValidateSolutions_def ready_def toy_decode1 toy_getPuzzleKey bind_def index_def
     toyPayer_def zeroSession_def state_defs)

lemma toy_ValidatePuzzles_at_length: "ValidatePuzzles toyEnv
      \<lparr>td_FakeTxList = [1, 0], td_RealTxList = [], td_RandomPads = [replicate 32 0],
       td_Salt = replicate 32 0\<rparr>
      (0, toyTumbler, toyPayee) = (Panic IndexOutOfRange, 0, toyTumbler, toyPayee)"
  by (simp add: ValidatePuzzles_def ready_def toy_decode1 toy_getPuzzleKey bind_def index_def
     toyPayee_def zeroSession_def state_defs HashIndexList_def toyEnv_def putUint16_def FakeTxFormat_def)

lemma toy_SetAddress:
  "t = ReceiverAddress \<or> t = SenderAddress \<Longrightarrow> SetAddress toyEnv c t a a =
    Ok (if t = ReceiverAddress
        then c\<lparr>ReceiverAddr := Some (toyAddress a), ReceiverAddrStr := a, ReceiverScriptAddr := []\<rparr>
        else c\<lparr>SenderAddr := Some (toyAddress a), SenderAddrStr := a, SenderScriptAddr := []\<rparr>)"
  by (auto simp: SetAddress_def toyEnv_def toyAddress_def role_defs checkAddressType_def
      PayToPubKey_def PayToPubKeyHash_def)

lemma toy_getEpochAddress:
  "getEpochAddress env 1234 (w, toyTumbler) =
    (case wallet_GetExtAddress env w of
       Inl x \<Rightarrow> (Err x, Suc w, toyTumbler)
     | Inr ap \<Rightarrow> (Ok ap, Suc w,
         toyTumbler\<lparr>epochs := [Some ((toyEpoch 1234)\<lparr>ep_Address := fst ap, ep_Pubkey := snd ap\<rparr>)]\<rparr>))"
  by (simp add: getEpochAddress_def toyTumbler_def toyEpoch_def NewTumbler_def defaultConfig_def
      EpochDuration_def split: sum.splits)

lemma toy_DecodeAddress_fails: "DecodeAddress toyEnvOfferFails = DecodeAddress toyEnv"
  by (simp add: toyEnvOfferFails_def)

lemma toy_SetAddress_fails:
  "SetAddress toyEnvOfferFails c t a pk = SetAddress toyEnv c t a pk"
  unfolding SetAddress_def toy_DecodeAddress_fails by (rule refl)

lemma toy_contract_New:
  "contract_New 100000000 l = Ok \<lparr>SenderAddr = None, SenderAddrStr = [], SenderScriptAddr = [],
              ReceiverAddr = None, ReceiverAddrStr = [], ReceiverScriptAddr = [],
              EscrowBytes = [], EscrowAddrStr = [], EscrowScript = [], EscrowHash = [],
              RefundAddr = None, RefundAddrStr = [], RefundScriptAddr = [],
              RedeemAddr = None, RedeemAddrStr = [], RedeemScriptAddr = [],
              Amount = 100000000, LockTime = l\<rparr>"
  by (simp add: contract_New_def contractValue_def)

lemma toy_ready_offer: "ready (toyPayer\<lparr>state := StateSolutionsValidated\<rparr>) StateOfferReceived = Ok ()"
  by (simp add: ready_Ok_iff state_defs)

lemma toyEnvOfferFails_fields:
  "wallet_GetExtAddress toyEnvOfferFails w = Inr (''TsToy'', ''TsToy'')"
  "wallet_ImportEscrowScript toyEnvOfferFails w c = (c, None)"
  "wallet_ValidateOffer toyEnvOfferFails w c h = (c, False, Some (ErrMsg ''GetTransaction''))"
  by (simp_all add: toyEnvOfferFails_def toyEnv_def)

lemma toyPayer_fields:
  "puzzles toyPayer = [[8]]" "contract toyPayer = None" "address toyPayer = ''TsClient''"
  "epoch toyPayer = 1234" "state toyPayer = StateSolutionsPromised"
  by (simp_all add: toyPayer_def zeroSession_def)

lemma toy_PaymentOffer_fails:
  "fst (PaymentOffer toyEnvOfferFails toyOffer
          (0, toyTumbler, toyPayer\<lparr>state := StateSolutionsValidated\<rparr>))
     = Err (ErrWrap ''failed to validate offer tx'' (ErrMsg ''GetTransaction''))
   \<and> state (snd (snd (snd (PaymentOffer toyEnvOfferFails toyOffer
          (0, toyTumbler, toyPayer\<lparr>state := StateSolutionsValidated\<rparr>))))) = StateOfferReceived"
  by (simp add: PaymentOffer_def toy_ready_offer toyOffer_def toy_decode1 toyPayer_fields
      toy_contract_New toy_SetAddress_fails toy_SetAddress role_defs toy_getEpochAddress
      toyEnvOfferFails_fields)


lemma toy_before_latch_decode:
  "PaymentOffer_before_latch toyEnv (toyOffer\<lparr>po_RealPuzzleList := [1]\<rparr>)
      (0, toyTumbler, toyPayer\<lparr>state := StateSolutionsValidated\<rparr>)
   = (Err (ErrWrap ''failed to decode puzzle index list'' (ErrMsg ''bad list length'')), 0,
      toyTumbler, toyPayer\<lparr>state := StateSolutionsValidated, realPuzzleList := []\<rparr>)"
  by (simp add: PaymentOffer_before_latch_def toy_ready_offer toyOffer_def DecodeIndexList_def)

lemma toy_SetupEscrow_error: "SetupEscrow toyEnv \<lparr>er_Address = ''TsClient'', er_PublicKey = ''TsClient'', er_Amount = 100000000\<rparr>
    (0, NewTumbler defaultConfig, zeroSession) = (Err ErrNoCurrentEpoch, 0, NewTumbler defaultConfig, zeroSession)"
  by (simp add: SetupEscrow_def ready_def Let_def getCurrentEpoch_def NewTumbler_def zeroSession_def state_defs)

lemma toy_GetPuzzlePromises_error: "GetPuzzlePromises toyEnv
    \<lparr>sc_FakeSetHash = [], sc_RealSetHash = [], sc_TransactionHashes = [], sc_Signatures = [],
     sc_PublicKey = []\<rparr>
    (0, NewTumbler defaultConfig, zeroSession\<lparr>state := StateEscrowComplete\<rparr>)
   = (Err ErrEpochNotFound, 0, NewTumbler defaultConfig, zeroSession\<lparr>state := StateEscrowComplete\<rparr>)"
  by (simp add: GetPuzzlePromises_def ready_def Let_def getPuzzleKey_def NewTumbler_def zeroSession_def state_defs)

lemma toy_ValidatePuzzles_error: "ValidatePuzzles toyEnv
    \<lparr>td_FakeTxList = [1], td_RealTxList = [], td_RandomPads = [], td_Salt = []\<rparr>
    (0, toyTumbler, toyPayee)
   = (Err (ErrWrap ''failed to decode fake tx index list'' (ErrMsg ''bad list length'')), 0, toyTumbler, toyPayee)"
  by (simp add: ValidatePuzzles_def ready_def Let_def bind_def DecodeIndexList_def toyPayee_def zeroSession_def state_defs)

lemma toy_FinalizeEscrow_error: "FinalizeEscrow toyEnv (0, toyTumbler, toyPayee)
   = (Err (ErrNotReady ''EscrowPublished'' ''PuzzlesPromised''), 0, toyTumbler, toyPayee)"
  by (simp add: FinalizeEscrow_def ready_def bind_def index_def stateNames_def toyPayee_def zeroSession_def state_defs)

lemma toy_GetSolutionPromises_error: "GetSolutionPromises toyEnv \<lparr>so_Epoch = 5, so_Puzzles = []\<rparr> (0, toyTumbler, zeroSession)
   = (Err ErrEpochNotFound, 0, toyTumbler, zeroSession)"
  by (simp add: GetSolutionPromises_def ready_def Let_def getPuzzleKey_def toyTumbler_def toyEpoch_def zeroSession_def state_defs)


text \<open>
  C2, as the code has it.  \<open>SetupEscrow\<close>, \<open>GetPuzzlePromises\<close>, \<open>ValidatePuzzles\<close>,
  \<open>FinalizeEscrow\<close>, \<open>GetSolutionPromises\<close> and \<open>ValidateSolutions\<close> leave the
  session's state as it was whenever they return an error.  For \<open>PaymentOffer\<close>:
  every error of the steps before the latch of OfferReceived is the error that
  \<open>PaymentOffer\<close> returns, and the state is then as it was.  Every other error of
  \<open>PaymentOffer\<close> is returned after those steps have succeeded, from the wallet's
  validation of the offer or from the \<open>validateOffer\<close> continuation: the session
  entered in SolutionsValidated and is left in OfferReceived (or in
  SolutionPublished, when an asynchronous error was already latched in the session at
  entry).
\<close>

theorem handler_error_state:
  "(SetupEscrow env er (w, tb, s) = (Err e, w', tb', s') \<longrightarrow> state s' = state s)
   \<and> (GetPuzzlePromises env cp (w, tb, s) = (Err e, w', tb', s') \<longrightarrow> state s' = state s)
   \<and> (ValidatePuzzles env cd (w, tb, s) = (Err e, w', tb', s') \<longrightarrow> state s' = state s)
   \<and> (FinalizeEscrow env (w, tb, s) = (Err e, w', tb', s') \<longrightarrow> state s' = state s)
   \<and> (GetSolutionPromises env sc (w, tb, s) = (Err e, w', tb', s') \<longrightarrow> state s' = state s)
   \<and> (ValidateSolutions env pd (w, tb, s) = (Err e, w', tb', s') \<longrightarrow> state s' = state s)
   \<and> (PaymentOffer_before_latch env po (w, tb, s) = (Err e, w', tb', s') \<longrightarrow>
        PaymentOffer env po (w, tb, s) = (Err e, w', tb', s') \<and> state s' = state s)
   \<and> (PaymentOffer env po (w, tb, s) = (Err e, w', tb', s') \<longrightarrow>
        PaymentOffer_before_latch env po (w, tb, s) = (Err e, w', tb', s')
        \<or> (fst (PaymentOffer_before_latch env po (w, tb, s)) = Ok ()
            \<and> state s = StateSolutionsValidated
            \<and> (state s' = StateOfferReceived
                \<or> (state s' = StateSolutionPublished \<and> err s \<noteq> None))))"
  using SetupEscrow_error [of env er w tb s e w' tb' s']
    GetPuzzlePromises_error [of env cp w tb s e w' tb' s']
    ValidatePuzzles_error [of env cd w tb s e w' tb' s']
    FinalizeEscrow_error [of env w tb s e w' tb' s']
    GetSolutionPromises_error [of env sc w tb s e w' tb' s']
    ValidateSolutions_error [of env pd w tb s e w' tb' s']
    before_latch_error [of env po w tb s e w' tb' s']
    PaymentOffer_error_cases [of env po w tb s e w' tb' s']
  by blast

theorem handler_error_state_witness:
  "SetupEscrow toyEnv
      \<lparr>er_Address = ''TsClient'', er_PublicKey = ''TsClient'', er_Amount = 100000000\<rparr>
      (0, NewTumbler defaultConfig, zeroSession)
     = (Err ErrNoCurrentEpoch, 0, NewTumbler defaultConfig, zeroSession)
   \<and> ValidateSolutions toyEnv \<lparr>pd_FakePuzzleList = [2, 0], pd_FakeFactors = [[2]]\<rparr>
      (0, toyTumbler, toyPayer)
     = (Err (ErrMsg ''bad puzzle reference''), 0, toyTumbler, toyPayer)
   \<and> fst (FinalizeEscrow toyEnv (0, toyTumbler, toyPayee))
     = Err (ErrNotReady ''EscrowPublished'' ''PuzzlesPromised'')
   \<and> state (snd (snd (snd (FinalizeEscrow toyEnv (0, toyTumbler, toyPayee))))) = state toyPayee
   \<and> PaymentOffer toyEnv (toyOffer\<lparr>po_RealPuzzleList := [1]\<rparr>)
        (0, toyTumbler, toyPayer\<lparr>state := StateSolutionsValidated\<rparr>)
     = (Err (ErrWrap ''failed to decode puzzle index list'' (ErrMsg ''bad list length'')), 0,
        toyTumbler, toyPayer\<lparr>state := StateSolutionsValidated, realPuzzleList := []\<rparr>)
   \<and> state (toyPayer\<lparr>state := StateSolutionsValidated, realPuzzleList := []\<rparr>)
     = state (toyPayer\<lparr>state := StateSolutionsValidated\<rparr>)
   \<and> fst (PaymentOffer toyEnvOfferFails toyOffer
          (0, toyTumbler, toyPayer\<lparr>state := StateSolutionsValidated\<rparr>))
     = Err (ErrWrap ''failed to validate offer tx'' (ErrMsg ''GetTransaction''))
   \<and> fst (PaymentOffer_before_latch toyEnvOfferFails toyOffer
          (0, toyTumbler, toyPayer\<lparr>state := StateSolutionsValidated\<rparr>)) = Ok ()
   \<and> state (snd (snd (snd (PaymentOffer toyEnvOfferFails toyOffer
          (0, toyTumbler, toyPayer\<lparr>state := StateSolutionsValidated\<rparr>)))))
        = StateOfferReceived"
proof -
  let ?S = "toyPayer\<lparr>state := StateSolutionsValidated\<rparr>"
  let ?po = "PaymentOffer toyEnvOfferFails toyOffer (0, toyTumbler, ?S)"
  let ?fe = "FinalizeEscrow toyEnv (0, toyTumbler, toyPayee)"
  have 1: "state (snd (snd (snd ?fe))) = state toyPayee"
    using handler_error_state [where env = toyEnv and w = 0 and tb = toyTumbler
        and s = toyPayee and e = "ErrNotReady ''EscrowPublished'' ''PuzzlesPromised''"
        and w' = "fst (snd ?fe)" and tb' = "fst (snd (snd ?fe))" and s' = "snd (snd (snd ?fe))"]
      toy_FinalizeEscrow_error
    by simp
  have 2: "PaymentOffer toyEnv (toyOffer\<lparr>po_RealPuzzleList := [1]\<rparr>) (0, toyTumbler, ?S)
     = (Err (ErrWrap ''failed to decode puzzle index list'' (ErrMsg ''bad list length'')), 0,
        toyTumbler, ?S\<lparr>realPuzzleList := []\<rparr>)
     \<and> state (?S\<lparr>realPuzzleList := []\<rparr>) = state ?S"
    using handler_error_state [where env = toyEnv and po = "toyOffer\<lparr>po_RealPuzzleList := [1]\<rparr>"
        and w = 0 and tb = toyTumbler and s = ?S
        and e = "ErrWrap ''failed to decode puzzle index list'' (ErrMsg ''bad list length'')"
        and w' = 0 and tb' = toyTumbler and s' = "?S\<lparr>realPuzzleList := []\<rparr>"]
      toy_before_latch_decode
    by blast
  obtain r w1 tb1 s1 where po: "?po = (r, w1, tb1, s1)" by (cases ?po) auto
  with toy_PaymentOffer_fails
  have r: "r = Err (ErrWrap ''failed to validate offer tx'' (ErrMsg ''GetTransaction''))"
    and st: "state s1 = StateOfferReceived"
    by simp_all
  have ne: "state s1 \<noteq> state ?S" by (simp add: st state_defs)
  have "PaymentOffer_before_latch toyEnvOfferFails toyOffer (0, toyTumbler, ?S) \<noteq> (r, w1, tb1, s1)"
    using handler_error_state [where env = toyEnvOfferFails and po = toyOffer and w = 0
        and tb = toyTumbler and s = ?S
        and e = "ErrWrap ''failed to validate offer tx'' (ErrMsg ''GetTransaction'')"
        and w' = w1 and tb' = tb1 and s' = s1] ne r
    by blast
  then have 3: "fst (PaymentOffer_before_latch toyEnvOfferFails toyOffer (0, toyTumbler, ?S)) = Ok ()"
    using handler_error_state [where env = toyEnvOfferFails and po = toyOffer and w = 0
        and tb = toyTumbler and s = ?S
        and e = "ErrWrap ''failed to validate offer tx'' (ErrMsg ''GetTransaction'')"
        and w' = w1 and tb' = tb1 and s' = s1] po r
    by blast
  from 1 2 3 toy_SetupEscrow_error toy_ValidateSolutions_beyond toy_FinalizeEscrow_error
    toy_PaymentOffer_fails
  show ?thesis by simp
qed

text \<open>
  The claim as stated fails for \<open>PaymentOffer\<close>: with a wallet whose offer validation
  fails, a session that enters in SolutionsValidated gets the error and is left in
  OfferReceived.
\<close>

theorem PaymentOffer_counterexample:
  "state (toyPayer\<lparr>state := StateSolutionsValidated\<rparr>) = StateSolutionsValidated
   \<and> fst (PaymentOffer toyEnvOfferFails toyOffer
          (0, toyTumbler, toyPayer\<lparr>state := StateSolutionsValidated\<rparr>))
     = Err (ErrWrap ''failed to validate offer tx'' (ErrMsg ''GetTransaction''))
   \<and> state (snd (snd (snd (PaymentOffer toyEnvOfferFails toyOffer
          (0, toyTumbler, toyPayer\<lparr>state := StateSolutionsValidated\<rparr>))))) = StateOfferReceived
   \<and> StateOfferReceived \<noteq> StateSolutionsValidated"
  using toy_PaymentOffer_fails by (simp add: state_defs)

subsection \<open>Indices at the length of a stored array\<close>

text \<open>
  C3.  The guards of \<open>ValidateSolutions\<close> and \<open>ValidatePuzzles\<close> compare with
  \<open>idx > len\<close>: an index beyond the length is refused with an error, but an index
  equal to the length passes the guard and the read at that index panics.  With one
  stored puzzle, the fake list \<open>[1]\<close> makes \<open>ValidateSolutions\<close> panic, while \<open>[2]\<close>
  is refused.
\<close>

theorem ValidateSolutions_index_at_length:
  "ValidateSolutions toyEnv \<lparr>pd_FakePuzzleList = [1, 0], pd_FakeFactors = [[2]]\<rparr>
      (0, toyTumbler, toyPayer)
     = (Panic IndexOutOfRange, 0, toyTumbler, toyPayer)
   \<and> ValidateSolutions toyEnv \<lparr>pd_FakePuzzleList = [2, 0], pd_FakeFactors = [[2]]\<rparr>
      (0, toyTumbler, toyPayer)
     = (Err (ErrMsg ''bad puzzle reference''), 0, toyTumbler, toyPayer)
   \<and> length (puzzles toyPayer) = 1"
  using toy_ValidateSolutions_at_length toy_ValidateSolutions_beyond
  by (simp add: toyPayer_fields)

subsection \<open>Block height zero\<close>



subsection \<open>The shuffle map\<close>

lemma unat_prod64:
  assumes that: "m < 2 ^ 31"
  shows "unat ((ucast (v :: 32 word) :: 64 word) * word_of_nat m) = unat v * m"
proof -
  have v: "unat v < 2 ^ 32" using unsigned_less [of v] by simp
  have "unat v * m < 2 ^ 32 * 2 ^ 31"
    using v that by (intro mult_strict_mono) auto
  then have lt: "unat v * m < 2 ^ 64" by simp
  have v64: "unat v < 2 ^ 64" using v by simp
  have m64: "m < 2 ^ 64" using that by simp
  have "unat ((ucast v :: 64 word) * word_of_nat m) = (unat (ucast v :: 64 word) * unat (word_of_nat m :: 64 word)) mod 2 ^ 64"
    by (simp add: unat_word_ariths)
  also have "unat (ucast v :: 64 word) = unat v"
    using v64 by (simp add: unsigned_ucast_eq take_bit_nat_eq_self_iff)
  also have "unat (word_of_nat m :: 64 word) = m"
    using m64 by (simp add: unat_of_nat)
  finally show ?thesis using lt by simp
qed

lemma sint_of_nat31: "m < 2 ^ 31 \<Longrightarrow> sint (word_of_nat m :: 32 word) = int m"
proof -
  assume m: "m < 2 ^ 31"
  have "sint (word_of_nat m :: 32 word) = signed_take_bit 31 (int m)"
    using sint_sbintrunc' [of "int m", where 'a = 32] by simp
  also have "\<dots> = int m"
    using m by (simp add: signed_take_bit_int_eq_self)
  finally show ?thesis by simp
qed

lemma scast_of_nat31: "m < 2 ^ 31 \<Longrightarrow> (scast (word_of_nat m :: 32 word) :: 64 word) = word_of_nat m"
  by (simp add: scast_eq sint_of_nat31)

lemma hi_word:
  assumes "m < 2 ^ 31"
  shows "sint (ucast (drop_bit 32 ((ucast (v :: 32 word) :: 64 word) * scast (word_of_nat m :: 32 word))) :: 32 word)
           = int (unat v * m div 2 ^ 32)"
    and "unat v * m div 2 ^ 32 < m \<or> m = 0"
proof -
  let ?q = "unat v * m div 2 ^ 32"
  have v: "unat v < 2 ^ 32" using unsigned_less [of v] by simp
  show q: "?q < m \<or> m = 0"
  proof (cases "m = 0")
    case False
    then have "unat v * m < m * 2 ^ 32" using v by simp
    then have "?q < m" by (rule less_mult_imp_div_less)
    then show ?thesis ..
  qed simp
  then have q31: "?q < 2 ^ 31" using assms by auto
  then have q32: "?q < 2 ^ 32" by simp
  let ?w = "(ucast v :: 64 word) * word_of_nat m"
  have "unat (drop_bit 32 ?w) = drop_bit 32 (unat ?w)"
    by (rule unat_drop_bit_eq)
  also have "\<dots> = ?q"
    by (simp add: unat_prod64 [OF assms] drop_bit_eq_div)
  finally have u: "unat (ucast (drop_bit 32 ?w) :: 32 word) = ?q"
    using q32 by (simp add: unsigned_ucast_eq take_bit_nat_eq_self_iff)
  have "sint (ucast (drop_bit 32 ?w) :: 32 word) = signed_take_bit 31 (uint (ucast (drop_bit 32 ?w) :: 32 word))"
    by (simp add: sint_uint)
  also have "uint (ucast (drop_bit 32 ?w) :: 32 word) = int ?q"
    using u by (metis uint_nat)
  also have "signed_take_bit 31 (int ?q) = int ?q"
    using q31 by (simp add: signed_take_bit_int_eq_self)
  finally show "sint (ucast (drop_bit 32 ((ucast v :: 64 word) * scast (word_of_nat m :: 32 word))) :: 32 word) = int ?q"
    by (simp add: scast_of_nat31 [OF assms])
qed


lemma reject_loop_form:
  assumes "reject_loop random n thresh v prd pos = Some r" "\<exists>v0 :: 32 word. prd = ucast v0 * scast n"
  shows "\<exists>v' :: 32 word. fst r = ucast v' * scast n"
proof -
  have "(\<exists>v0 :: 32 word. prd = ucast v0 * scast n) \<longrightarrow> (\<exists>v' :: 32 word. fst r = ucast v' * scast n)"
  proof (rule reject_loop.raw_induct
      [where P = "\<lambda>random n thresh v prd pos r.
          (\<exists>v0 :: 32 word. prd = ucast v0 * scast n) \<longrightarrow> (\<exists>v' :: 32 word. fst r = ucast v' * scast n)", OF _ assms(1)])
    fix f :: "reader \<Rightarrow> 32 word \<Rightarrow> 32 word \<Rightarrow> 32 word \<Rightarrow> 64 word \<Rightarrow> nat \<Rightarrow> (64 word \<times> nat) option"
    fix random n thresh v prd pos r
    assume IH: "\<And>random n thresh v prd pos y. f random n thresh v prd pos = Some y \<Longrightarrow>
        (\<exists>v0 :: 32 word. prd = ucast v0 * scast n) \<longrightarrow> (\<exists>v' :: 32 word. fst y = ucast v' * scast n)"
    assume body: "(if (ucast prd :: 32 word) < thresh
          then let v' = read_uint32 random pos v; prd' = ucast v' * scast n
               in f random n thresh v' prd' (Suc pos)
          else Some (prd, pos)) = Some r"
    show "(\<exists>v0 :: 32 word. prd = ucast v0 * scast n) \<longrightarrow> (\<exists>v' :: 32 word. fst r = ucast v' * scast n)"
    proof (cases "(ucast prd :: 32 word) < thresh")
      case True
      with body have "f random n thresh (read_uint32 random pos v)
          (ucast (read_uint32 random pos v) * scast n) (Suc pos) = Some r"
        by (simp add: Let_def)
      from IH [OF this] show ?thesis by blast
    next
      case False
      with body show ?thesis by auto
    qed
  qed
  with assms(2) show ?thesis by blast
qed

lemma uniformRandom31_range:
  assumes "m < 2 ^ 31" "0 < m" "uniformRandom31 random (word_of_nat m) pos = Some (jw, pos')"
  shows "0 \<le> sint jw \<and> sint jw < int m"
proof -
  let ?n = "word_of_nat m :: 32 word"
  have "\<exists>v' :: 32 word. jw = ucast (drop_bit 32 ((ucast v' :: 64 word) * scast ?n))"
  proof (cases "(ucast ((ucast (read_uint32 random pos 0) :: 64 word) * scast ?n) :: 32 word) < ?n")
    case True
    with assms(3) obtain r where r: "reject_loop random ?n ((- ?n) mod ?n) (read_uint32 random pos 0)
        (ucast (read_uint32 random pos 0) * scast ?n) (Suc pos) = Some r" and jw: "jw = ucast (drop_bit 32 (fst r))"
      by (auto simp: uniformRandom31_def Let_def split: option.splits)
    have "\<exists>v' :: 32 word. fst r = ucast v' * scast ?n"
      by (rule reject_loop_form [OF r]) blast
    with jw show ?thesis by auto
  next
    case False
    with assms(3) have "jw = ucast (drop_bit 32 ((ucast (read_uint32 random pos 0) :: 64 word) * scast ?n))"
      by (auto simp: uniformRandom31_def Let_def)
    then show ?thesis by blast
  qed
  then obtain v' :: "32 word" where jw: "jw = ucast (drop_bit 32 ((ucast v' :: 64 word) * scast ?n))" ..
  from hi_word [OF assms(1), of v'] assms(2) show ?thesis
    unfolding jw by simp
qed

lemma reject_loop_exit:
  "\<not> (ucast prd :: 32 word) < thresh \<Longrightarrow> reject_loop random n thresh v prd pos = Some (prd, pos)"
  by (subst reject_loop.simps) simp

lemma reject_loop_terminates:
  assumes "random p = Some v'" "\<not> (ucast ((ucast v' :: 64 word) * scast n) :: 32 word) < thresh"
  shows "pos \<le> p \<Longrightarrow> \<exists>r. reject_loop random n thresh v prd pos = Some r"
proof (induction "p - pos" arbitrary: pos v prd)
  case 0
  then have pos: "pos = p" by simp
  show ?case
  proof (cases "(ucast prd :: 32 word) < thresh")
    case True
    then show ?thesis
      using assms
      by (subst reject_loop.simps) (simp add: pos read_uint32_def Let_def reject_loop_exit)
  next
    case False
    then show ?thesis by (simp add: reject_loop_exit)
  qed
next
  case (Suc d)
  then have le: "Suc pos \<le> p" and d: "d = p - Suc pos" by auto
  show ?case
  proof (cases "(ucast prd :: 32 word) < thresh")
    case True
    from Suc(1) [OF d le] show ?thesis
      using True by (subst reject_loop.simps) (simp add: Let_def)
  next
    case False
    then show ?thesis by (simp add: reject_loop_exit)
  qed
qed

lemma uniformRandom31_terminates:
  assumes "random p = Some v'" "accepted n v'" "pos \<le> p"
  shows "\<exists>r. uniformRandom31 random n pos = Some r"
proof (cases "pos = p")
  case True
  have "read_uint32 random pos 0 = v'" using assms(1) True by (simp add: read_uint32_def)
  then show ?thesis
    using assms(2)
    by (simp add: uniformRandom31_def Let_def accepted_def reject_loop_exit)
next
  case False
  then have "Suc pos \<le> p" using assms(3) by simp
  from reject_loop_terminates [of random p v' n "(- n) mod n" "Suc pos" "read_uint32 random pos 0" "ucast (read_uint32 random pos 0) * scast n", OF assms(1) assms(2) [unfolded accepted_def] this]
  show ?thesis
    by (fastforce simp: uniformRandom31_def Let_def)
qed

lemma reject_loop_exhausted:
  "reject_loop (\<lambda>_. None) 3 1 0 0 pos = None"
proof (cases "reject_loop (\<lambda>_. None) 3 1 0 0 pos")
  case (Some r)
  have "\<not> ((\<lambda>_. None) = (\<lambda>_ :: nat. None :: 32 word option) \<and> (3 :: 32 word) = 3 \<and> (1 :: 32 word) = 1
          \<and> (0 :: 32 word) = 0 \<and> (0 :: 64 word) = 0)"
  proof (rule reject_loop.raw_induct
      [where P = "\<lambda>random n thresh v prd pos r.
          \<not> (random = (\<lambda>_. None) \<and> n = 3 \<and> thresh = 1 \<and> v = 0 \<and> prd = 0)", OF _ Some])
    fix f :: "reader \<Rightarrow> 32 word \<Rightarrow> 32 word \<Rightarrow> 32 word \<Rightarrow> 64 word \<Rightarrow> nat \<Rightarrow> (64 word \<times> nat) option"
    fix random n thresh v prd pos r
    assume IH: "\<And>random n thresh v prd pos y. f random n thresh v prd pos = Some y \<Longrightarrow>
        \<not> (random = (\<lambda>_. None) \<and> n = 3 \<and> thresh = 1 \<and> v = 0 \<and> prd = 0)"
    assume body: "(if (ucast prd :: 32 word) < thresh
          then let v' = read_uint32 random pos v; prd' = ucast v' * scast n
               in f random n thresh v' prd' (Suc pos)
          else Some (prd, pos)) = Some r"
    show "\<not> (random = (\<lambda>_. None) \<and> n = 3 \<and> thresh = 1 \<and> v = 0 \<and> prd = 0)"
    proof
      assume a: "random = (\<lambda>_. None) \<and> n = 3 \<and> thresh = 1 \<and> v = 0 \<and> prd = 0"
      with body have "f random n thresh v prd (Suc pos) = Some r"
        by (simp add: read_uint32_def)
      from IH [OF this] a show False by simp
    qed
  qed
  then show ?thesis by simp
qed simp


lemma shuffle_inv_step:
  assumes inv: "shuffle_inv N (Suc k) idx perm" and k: "Suc k < N" and j: "j \<le> Suc k"
  defines "idx' \<equiv> idx[Suc k := idx ! j, j := idx ! Suc k]"
  shows "shuffle_inv N k idx' (perm[nat (idx' ! Suc k) := int (Suc k)])"
    and "idx' ! Suc k = idx ! j" and "0 \<le> idx ! j" and "idx ! j < int N"
proof -
  from inv have len: "length idx = N" "length perm = N" and dist: "distinct idx"
    and set: "set idx = int ` {0..<N}"
    and perm: "\<And>p. p < N \<Longrightarrow> perm ! nat (idx ! p) = (if Suc k < p then int p else 0)"
    by (auto simp: shuffle_inv_def)
  have jN: "j < N" using j k by simp
  have rng: "0 \<le> idx ! p \<and> idx ! p < int N" if "p < N" for p
  proof -
    have "idx ! p \<in> set idx" using that len by simp
    then show ?thesis unfolding set by auto
  qed
  show "0 \<le> idx ! j" "idx ! j < int N" using rng [OF jN] by auto
  have len': "length idx' = N" by (simp add: idx'_def len)
  have dist': "distinct idx'"
    unfolding idx'_def using dist k jN len by (simp add: distinct_swap)
  have set': "set idx' = int ` {0..<N}"
    unfolding idx'_def using set k jN len by (simp add: set_swap)
  show top: "idx' ! Suc k = idx ! j"
    using k jN len by (cases "j = Suc k") (simp_all add: idx'_def)
  have rng': "0 \<le> idx' ! p \<and> idx' ! p < int N" if "p < N" for p
  proof -
    have "idx' ! p \<in> set idx'" using that len' by simp
    then show ?thesis unfolding set' by auto
  qed
  have "perm[nat (idx' ! Suc k) := int (Suc k)] ! nat (idx' ! p) = (if k < p then int p else 0)"
    if p: "p < N" for p
  proof (cases "p = Suc k")
    case True
    have "nat (idx ! j) < length perm" using rng [OF jN] len by (simp add: nat_less_iff)
    then show ?thesis using True by (simp add: top)
  next
    case False
    have "idx' ! p \<noteq> idx' ! Suc k"
      using dist' False p k len' by (simp add: nth_eq_iff_index_eq)
    then have ne: "nat (idx' ! p) \<noteq> nat (idx' ! Suc k)"
      using rng' [OF p] rng' [OF k] by (simp add: eq_nat_nat_iff)
    have old: "perm ! nat (idx' ! p) = (if k < p then int p else 0)"
    proof (cases "p = j")
      case True
      then have "idx' ! p = idx ! Suc k" using jN len by (simp add: idx'_def)
      then show ?thesis using perm [OF k] True j False by simp
    next
      case pj: False
      then have "idx' ! p = idx ! p" using False by (simp add: idx'_def)
      then show ?thesis using perm [OF p] False by auto
    qed
    show ?thesis using ne old by simp
  qed
  then show "shuffle_inv N k idx' (perm[nat (idx' ! Suc k) := int (Suc k)])"
    using len len' dist' set' by (simp add: shuffle_inv_def)
qed

lemma shuffle_loop_step:
  assumes inv: "shuffle_inv N (Suc k) idx perm" and k: "Suc k < N" and N: "N < 2 ^ 31 - 1"
    and u: "uniformRandom31 random (word_of_int (int (Suc k) + 1)) pos = Some (jw, pos')"
  shows "\<exists>idx' perm'. shuffle_loop random swap_elems (Suc k) (idx, perm, idx, pos)
            = shuffle_loop random swap_elems k (idx', perm', idx', pos') \<and> shuffle_inv N k idx' perm'"
proof -
  have w: "(word_of_int (int (Suc k) + 1) :: 32 word) = word_of_nat (Suc (Suc k))"
    by (metis of_int_of_nat_eq of_nat_Suc add.commute plus_1_eq_Suc of_nat_add of_nat_1)
  have m: "Suc (Suc k) < 2 ^ 31" using k N by simp
  from uniformRandom31_range [OF m _ u [unfolded w]]
  have j0: "0 \<le> sint jw" and j1: "sint jw < int (Suc (Suc k))" by auto
  define j where "j = nat (sint jw)"
  have jw: "sint jw = int j" using j0 by (simp add: j_def)
  have j: "j \<le> Suc k" using j1 jw by simp
  define idx' where "idx' = idx[Suc k := idx ! j, j := idx ! Suc k]"
  note step = shuffle_inv_step [OF inv k j, folded idx'_def]
  from inv have len: "length idx = N" "length perm = N" by (auto simp: shuffle_inv_def)
  have jN: "j < N" using j k by simp
  have s: "swap_elems (int (Suc k)) (int j) idx = Ok idx'"
    using k jN len by (simp add: swap_elems_def index_def bind_def idx'_def del: of_nat_Suc)
  have "shuffle_loop random swap_elems (Suc k) (idx, perm, idx, pos)
      = shuffle_loop random swap_elems k (idx', perm[nat (idx' ! Suc k) := int (Suc k)], idx', pos')"
    using k jN len step(2,3,4) s
    by (subst shuffle_loop.simps(2), subst u)
       (simp add: jw Let_def index_def bind_def idx'_def [symmetric] del: of_nat_Suc)
  with step(1) show ?thesis by blast
qed


lemma shuffle_loop_result:
  assumes N: "N < 2 ^ 31 - 1"
  shows "shuffle_inv N k idx perm \<Longrightarrow> k \<le> N - 1 \<Longrightarrow>
     shuffle_loop random swap_elems k (idx, perm, idx, pos) = Some r \<Longrightarrow>
     \<exists>idx' perm' pos'. r = Ok (idx', perm', idx', pos') \<and> shuffle_inv N 0 idx' perm'"
proof (induction k arbitrary: idx perm pos)
  case 0
  then show ?case by auto
next
  case (Suc k)
  then have k: "Suc k < N" by simp
  from Suc.prems(3) obtain jw pos'
    where u: "uniformRandom31 random (word_of_int (int (Suc k) + 1)) pos = Some (jw, pos')"
    by (cases "uniformRandom31 random (word_of_int (int (Suc k) + 1)) pos") auto
  from shuffle_loop_step [OF Suc.prems(1) k N u] obtain idx' perm'
    where eq: "shuffle_loop random swap_elems (Suc k) (idx, perm, idx, pos)
                 = shuffle_loop random swap_elems k (idx', perm', idx', pos')"
      and inv: "shuffle_inv N k idx' perm'" by blast
  from Suc.prems(3) have "shuffle_loop random swap_elems k (idx', perm', idx', pos') = Some r"
    unfolding eq .
  from Suc.IH [OF inv _ this] k show ?case by simp
qed

lemma shuffle_loop_terminates:
  assumes N: "N < 2 ^ 31 - 1" and fair: "eventually_accepts random (int N)"
  shows "shuffle_inv N k idx perm \<Longrightarrow> k \<le> N - 1 \<Longrightarrow>
     \<exists>r. shuffle_loop random swap_elems k (idx, perm, idx, pos) = Some r"
proof (induction k arbitrary: idx perm pos)
  case 0
  then show ?case by simp
next
  case (Suc k)
  then have k: "Suc k < N" by simp
  have "2 \<le> int (Suc k) + 1 \<and> int (Suc k) + 1 \<le> int N" using k by simp
  with fair obtain p v where p: "pos \<le> p" "random p = Some v"
      "accepted (word_of_int (int (Suc k) + 1)) v"
    unfolding eventually_accepts_def by blast
  from uniformRandom31_terminates [of random p v _ pos, OF p(2,3,1)] obtain jw pos'
    where u: "uniformRandom31 random (word_of_int (int (Suc k) + 1)) pos = Some (jw, pos')"
    by auto
  from shuffle_loop_step [OF Suc.prems(1) k N u] obtain idx' perm'
    where eq: "shuffle_loop random swap_elems (Suc k) (idx, perm, idx, pos)
                 = shuffle_loop random swap_elems k (idx', perm', idx', pos')"
      and inv: "shuffle_inv N k idx' perm'" by blast
  from Suc.IH [OF inv, of pos'] k show ?case unfolding eq by simp
qed

lemma shuffle_inv_init: "shuffle_inv N (N - 1) (map int [0..<N]) (replicate N 0)"
  by (auto simp: shuffle_inv_def distinct_map inj_on_def)

lemma shuffle_inv_final:
  assumes inv: "shuffle_inv N 0 idx perm" and i: "0 \<le> i" "i < int N"
  shows "\<exists>p. Get perm i = Ok p \<and> index idx p = Ok i"
proof -
  from inv have len: "length idx = N" "length perm = N"
    and set: "set idx = int ` {0..<N}"
    and perm: "\<And>p. p < N \<Longrightarrow> perm ! nat (idx ! p) = (if 0 < p then int p else 0)"
    by (auto simp: shuffle_inv_def)
  have "i \<in> set idx" unfolding set using i by (auto simp: image_iff intro!: bexI [of _ "nat i"])
  then obtain q where q: "q < N" "idx ! q = i" using len by (auto simp: in_set_conv_nth)
  from perm [OF q(1)] have "perm ! nat i = int q" by (simp add: q(2))
  then have "Get perm i = Ok (int q)" using i len by (simp add: Get_def index_def)
  moreover have "index idx (int q) = Ok i" using q len by (simp add: index_def)
  ultimately show ?thesis by blast
qed

lemma Shuffle_invalid:
  "n < 0 \<or> 2 ^ 31 - 2 < n \<Longrightarrow>
     Shuffle random n swap a = Some (Panic (PanicMsg ''invalid argument to Shuffle''))"
  by (auto simp: Shuffle_def)

lemma Shuffle_small:
  "n = 0 \<or> n = 1 \<Longrightarrow> Shuffle random n swap a = Some (Ok (replicate (nat n) 0, a, 0))"
  by (auto simp: Shuffle_def)

lemma Shuffle_result:
  assumes n: "0 \<le> n" "n \<le> 2 ^ 31 - 2"
    and r: "Shuffle random n swap_elems (map int [0..<nat n]) = Some r"
  shows "\<exists>perm a' pos. r = Ok (perm, a', pos) \<and>
           (\<forall>i. 0 \<le> i \<and> i < n \<longrightarrow> (\<exists>p. Get perm i = Ok p \<and> index a' p = Ok i))"
proof -
  define N where "N = nat n"
  have N: "N < 2 ^ 31 - 1" using n by (simp add: N_def)
  have k: "nat (n - 1) = N - 1" by (simp add: N_def nat_diff_distrib')
  from r n obtain r' where r': "shuffle_loop random swap_elems (N - 1)
        (map int [0..<N], replicate N 0, map int [0..<N], 0) = Some r'"
    by (cases "shuffle_loop random swap_elems (N - 1)
        (map int [0..<N], replicate N 0, map int [0..<N], 0)")
       (auto simp: Shuffle_def Let_def k N_def [symmetric])
  from shuffle_loop_result [OF N shuffle_inv_init _ r'] obtain idx' perm' pos'
    where res: "r' = Ok (idx', perm', idx', pos')" and inv: "shuffle_inv N 0 idx' perm'"
    by auto
  from r n have "r = Ok (perm', idx', pos')"
    by (simp add: Shuffle_def Let_def k N_def [symmetric] r' [simplified] res)
  moreover have "\<forall>i. 0 \<le> i \<and> i < n \<longrightarrow> (\<exists>p. Get perm' i = Ok p \<and> index idx' p = Ok i)"
    using shuffle_inv_final [OF inv] n by (simp add: N_def)
  ultimately show ?thesis by blast
qed

lemma Shuffle_terminates:
  assumes n: "0 \<le> n" "n \<le> 2 ^ 31 - 2" and fair: "eventually_accepts random n"
  shows "\<exists>r. Shuffle random n swap_elems (map int [0..<nat n]) = Some r"
proof -
  define N where "N = nat n"
  have N: "N < 2 ^ 31 - 1" using n by (simp add: N_def)
  have k: "nat (n - 1) = N - 1" by (simp add: N_def nat_diff_distrib')
  have fair': "eventually_accepts random (int N)" using fair n by (simp add: N_def)
  from shuffle_loop_terminates [OF N fair' shuffle_inv_init, of 0] obtain r'
    where r': "shuffle_loop random swap_elems (N - 1)
        (map int [0..<N], replicate N 0, map int [0..<N], 0) = Some r'" by auto
  from shuffle_loop_result [OF N shuffle_inv_init _ r'] obtain idx' perm' pos'
    where res: "r' = Ok (idx', perm', idx', pos')" by auto
  from n show ?thesis
    by (simp add: Shuffle_def Let_def k N_def [symmetric] r' [simplified] res)
qed

text \<open>
  Claim C9.  \<^verbatim>\<open>Shuffle\<close> panics when \<open>n < 0\<close> or \<open>n > 2^31 - 2\<close>.  For \<open>n = 0\<close> and
  \<open>n = 1\<close> it returns without reading the source and without calling \<^verbatim>\<open>swap\<close>: the
  caller's data is returned as it was, whatever \<^verbatim>\<open>swap\<close> is.  For \<open>0 \<le> n \<le> 2^31 - 2\<close>, on
  the identity array with the exchanging \<^verbatim>\<open>swap\<close>: whenever \<^verbatim>\<open>Shuffle\<close> returns, it
  returns normally, and for every original index \<open>i\<close> in \<open>[0, n)\<close> the map's
  \<^verbatim>\<open>Get(i)\<close> is a position \<open>p\<close> with \<open>a[p] = i\<close> after the shuffle; and it does return
  when the random source eventually yields an accepted word for every bound from every
  position on.  It does not return for every random source: see the counterexample below.
\<close>

theorem Shuffle_map:
  "(n < 0 \<or> 2 ^ 31 - 2 < n \<longrightarrow>
      Shuffle random n swap a = Some (Panic (PanicMsg ''invalid argument to Shuffle'')))
   \<and> (n = 0 \<or> n = 1 \<longrightarrow> Shuffle random n swap a = Some (Ok (replicate (nat n) 0, a, 0)))
   \<and> (0 \<le> n \<and> n \<le> 2 ^ 31 - 2 \<and> Shuffle random n swap_elems (map int [0..<nat n]) = Some r \<longrightarrow>
        (\<exists>perm a' pos. r = Ok (perm, a', pos) \<and>
           (\<forall>i. 0 \<le> i \<and> i < n \<longrightarrow> (\<exists>p. Get perm i = Ok p \<and> index a' p = Ok i))))
   \<and> (0 \<le> n \<and> n \<le> 2 ^ 31 - 2 \<and> eventually_accepts random n \<longrightarrow>
        (\<exists>r'. Shuffle random n swap_elems (map int [0..<nat n]) = Some r'))"
  using Shuffle_invalid [of n random swap a] Shuffle_small [of n random swap a]
    Shuffle_result [of n random r] Shuffle_terminates [of n random]
  by blast

lemma ucast_scast_32: "(ucast (scast (n :: 32 word) :: 64 word) :: 32 word) = n"
proof (rule bit_word_eqI)
  fix k assume k: "k < LENGTH(32)"
  then have "k \<le> 31" by simp
  then show "bit (ucast (scast n :: 64 word) :: 32 word) k = bit n k"
    using k by (auto simp: bit_simps min_def)
qed

lemma accepted_one: "accepted n 1"
proof -
  have "unat ((- n) mod n) \<le> unat n"
    by (cases "n = 0") (simp_all add: unat_mod_distrib less_imp_le unat_gt_0)
  then show ?thesis
    by (simp add: accepted_def ucast_scast_32 word_less_nat_alt)
qed

lemma eventually_accepts_ones: "eventually_accepts (\<lambda>p. Some 1) n"
  unfolding eventually_accepts_def using accepted_one by blast

theorem Shuffle_map_witness:
  "eventually_accepts (\<lambda>p. Some 1) 4 \<and>
   (\<exists>perm a' pos. Shuffle (\<lambda>p. Some 1) 4 swap_elems (map int [0..<nat 4]) = Some (Ok (perm, a', pos)) \<and>
      (\<forall>i. 0 \<le> i \<and> i < 4 \<longrightarrow> (\<exists>p. Get perm i = Ok p \<and> index a' p = Ok i)))"
proof -
  note fair = eventually_accepts_ones [of 4]
  from Shuffle_map [of 4 "\<lambda>p. Some 1" swap_elems "[]" ] fair
  obtain r where r: "Shuffle (\<lambda>p. Some 1) 4 swap_elems (map int [0..<nat 4]) = Some r" by auto
  from Shuffle_map [of 4 "\<lambda>p. Some 1" swap_elems "[]" r] r fair show ?thesis by auto
qed

text \<open>
  A reader at its end: every read fails, \<^verbatim>\<open>v\<close> stays 0, and for the bound 3 the
  threshold is \<open>2^32 mod 3 = 1\<close>, so the rejection loop of the first draw never ends.
\<close>

lemma uniformRandom31_exhausted: "uniformRandom31 (\<lambda>_. None) 3 0 = None"
  by (simp add: uniformRandom31_def read_uint32_def reject_loop_exhausted)

theorem Shuffle_counterexample:
  "Shuffle (\<lambda>_. None) 3 swap_elems (map int [0..<nat 3]) = None"
  by (simp add: Shuffle_def uniformRandom31_exhausted eval_nat_numeral)

subsection \<open>Quotients\<close>

lemma SetBytes_snoc: "SetBytes (xs @ [b]) = SetBytes xs * 256 + uint b"
  by (simp add: SetBytes_def)

lemma SetBytes_nat_to_bytes: "SetBytes (nat_to_bytes n) = int n"
proof (induction n rule: nat_to_bytes.induct)
  case (1 n)
  show ?case
  proof (cases "n = 0")
    case True
    then show ?thesis by (simp add: nat_to_bytes.simps SetBytes_def)
  next
    case False
    have u: "uint (of_nat (n mod 256) :: 8 word) = int (n mod 256)"
      by (simp add: uint_nat unat_of_nat)
    have "nat_to_bytes n = nat_to_bytes (n div 256) @ [of_nat (n mod 256)]"
      using False by (subst nat_to_bytes.simps) simp
    then show ?thesis
      using 1 [OF False] u by (simp add: SetBytes_snoc zdiv_int zmod_int)
  qed
qed

lemma SetBytes_Bytes: "0 \<le> x \<Longrightarrow> SetBytes (Bytes x) = x"
  by (simp add: Bytes_def SetBytes_nat_to_bytes)


lemma modInverse_correct:
  assumes c: "gcd_contract env" and a: "0 < a" and n: "1 < n" and co: "coprime a n"
  shows "\<exists>ai. modInverse env a n = Some ai \<and> a * ai mod n = 1"
proof -
  obtain g x y where gx: "big_GCD env a n = (g, x, y)" by (cases "big_GCD env a n") auto
  from c a n have "g = gcd a n \<and> a * x + n * y = g"
    unfolding gcd_contract_def using gx by (auto split: prod.splits)
  with co have g: "g = 1" and bez: "a * x + n * y = 1" by (auto simp: coprime_iff_gcd_eq_1)
  have "(a * x) mod n = (a * x + n * y) mod n" by simp
  then have ax: "(a * x) mod n = 1" using bez n by simp
  have "(a * (x + n)) mod n = (a * x) mod n" by (simp add: distrib_left)
  with ax have axn: "(a * (x + n)) mod n = 1" by simp
  show ?thesis
    using ax axn by (simp add: modInverse_def gx g)
qed

lemma quotients_loop_linked:
  assumes c: "gcd_contract env" and N: "1 < pub_N pk"
  shows "0 < s0 \<Longrightarrow> coprime s0 (pub_N pk) \<Longrightarrow>
     \<forall>s\<in>set ss. 0 < s \<and> s < pub_N pk \<and> coprime s (pub_N pk) \<Longrightarrow>
     \<exists>qs. quotients_loop env pk (Bytes s0) (map Bytes ss) = Ok (map Bytes qs)
          \<and> linked (pub_N pk) s0 ss qs"
proof (induction ss arbitrary: s0)
  case Nil
  show ?case by (rule exI [of _ "[]"]) simp
next
  case (Cons s ss)
  from Cons.prems have s: "0 < s" "s < pub_N pk" "coprime s (pub_N pk)"
    and rest: "\<forall>s\<in>set ss. 0 < s \<and> s < pub_N pk \<and> coprime s (pub_N pk)" by auto
  from modInverse_correct [OF c Cons.prems(1) N Cons.prems(2)] obtain ai
    where ai: "modInverse env s0 (pub_N pk) = Some ai" "s0 * ai mod pub_N pk = 1" by blast
  from Cons.IH [OF s(1) s(3) rest] obtain qs
    where qs: "quotients_loop env pk (Bytes s) (map Bytes ss) = Ok (map Bytes qs)"
      "linked (pub_N pk) s ss qs" by blast
  let ?q = "s * ai mod pub_N pk"
  have q0: "0 \<le> ?q" using N by simp
  have "s0 * ?q mod pub_N pk = (s * (s0 * ai mod pub_N pk)) mod pub_N pk"
    by (metis mod_mult_right_eq mult.left_commute)
  also have "\<dots> = s" using ai(2) s by simp
  finally have link: "s0 * ?q mod pub_N pk = s" .
  have "quotients_loop env pk (Bytes s0) (map Bytes (s # ss)) = Ok (map Bytes (?q # qs))"
    using Cons.prems(1) s(1) N ai(1) qs(1)
    by (simp add: Let_def SetBytes_Bytes bigMod_def bind_def)
  moreover have "linked (pub_N pk) s0 (s # ss) (?q # qs)"
    using q0 link qs(2) by simp
  ultimately show ?case by blast
qed

lemma verify_secrets_loop_linked:
  assumes N: "0 < pub_N pk"
  shows "linked (pub_N pk) (all ! (i - 1)) (drop i all) qs \<Longrightarrow>
     verify_secrets_loop pk (map Bytes qs) (map Bytes all) i (all ! (i - 1)) = Ok True"
proof (induction qs arbitrary: i)
  case Nil
  show ?case by simp
next
  case (Cons q qs)
  from Cons.prems(1) obtain s ss where d: "drop i all = s # ss"
    by (cases "drop i all") auto
  have i: "i < length all"
  proof (rule ccontr)
    assume "\<not> i < length all"
    then have "drop i all = []" by simp
    with d show False by simp
  qed
  from Cons_nth_drop_Suc [OF i] d have s: "s = all ! i" and ss: "ss = drop (Suc i) all"
    by auto
  from Cons.prems(1) d have q: "0 \<le> q" and link: "all ! (i - 1) * q mod pub_N pk = s"
    and rest: "linked (pub_N pk) s ss qs" by auto
  from Cons.IH [of "Suc i"] rest s ss
  have IH: "verify_secrets_loop pk (map Bytes qs) (map Bytes all) (Suc i) (all ! i) = Ok True"
    by simp
  show ?case
    using N q link i s IH
    by (simp add: SetBytes_Bytes bigMod_def bind_def index_def)
qed


lemma verify_puzzles_loop_linked:
  assumes N: "0 < pub_N pk"
  shows "linked (pub_N pk) (all ! (i - 1)) (drop i all) qs \<Longrightarrow> 0 < i \<Longrightarrow>
     verify_puzzles_loop pk (map Bytes qs)
        (map (\<lambda>s. Bytes (s ^ pub_E pk mod pub_N pk)) all) i = Ok True"
proof (induction qs arbitrary: i)
  case Nil
  show ?case by simp
next
  case (Cons q qs)
  from Cons.prems(1) obtain s ss where d: "drop i all = s # ss"
    by (cases "drop i all") auto
  have i: "i < length all"
  proof (rule ccontr)
    assume "\<not> i < length all"
    then have "drop i all = []" by simp
    with d show False by simp
  qed
  from Cons_nth_drop_Suc [OF i] d have s: "s = all ! i" and ss: "ss = drop (Suc i) all"
    by auto
  from Cons.prems(1) d have q: "0 \<le> q" and link: "all ! (i - 1) * q mod pub_N pk = s"
    and rest: "linked (pub_N pk) s ss qs" by auto
  from Cons.IH [of "Suc i"] rest s ss
  have IH: "verify_puzzles_loop pk (map Bytes qs)
      (map (\<lambda>s. Bytes (s ^ pub_E pk mod pub_N pk)) all) (Suc i) = Ok True"
    by simp
  let ?e = "pub_E pk" and ?N = "pub_N pk"
  have "(all ! (i - 1) ^ ?e mod ?N) * (q ^ ?e mod ?N) mod ?N = (all ! (i - 1) * q) ^ ?e mod ?N"
    by (simp add: mod_mult_eq power_mult_distrib)
  also have "\<dots> = (all ! (i - 1) * q mod ?N) ^ ?e mod ?N"
    by (simp add: power_mod)
  finally have z: "(all ! (i - 1) ^ ?e mod ?N) * (q ^ ?e mod ?N) mod ?N = all ! i ^ ?e mod ?N"
    using link s by simp
  have i1: "int i - 1 = int (i - 1)" using Cons.prems(2) by simp
  have z0: "0 \<le> all ! (i - 1) ^ ?e mod ?N" using N by simp
  show ?case
    using N q i Cons.prems(2) IH z z0
    by (simp add: SetBytes_Bytes bigMod_def bigExp_def bind_def index_def i1 Let_def
          del: of_nat_diff)
qed

text \<open>
  Claim C5.  Given a \<^verbatim>\<open>GCD\<close> that meets its contract, for every non-empty list of
  secrets that are the canonical encodings of integers in \<open>(0, N)\<close> coprime to \<open>N\<close>:
  \<^verbatim>\<open>Quotients\<close> succeeds with a list whose head is the encoding of 1 (and that is as long
  as the secrets), \<^verbatim>\<open>VerifyQuotientsWithSecrets\<close> returns true on it, and
  \<^verbatim>\<open>VerifyQuotients\<close>, which checks from index 1 on, returns true on it for the puzzles
  \<open>secrets[i]^e mod N\<close>.
\<close>

theorem quotients_verify:
  assumes c: "gcd_contract env"
    and ne: "ss \<noteq> []"
    and ok: "\<forall>s\<in>set ss. 0 < s \<and> s < pub_N pk \<and> coprime s (pub_N pk)"
  shows "\<exists>qs. Quotients env pk (map Bytes ss) = Ok (Bytes 1 # qs)
           \<and> length qs = length ss - 1
           \<and> VerifyQuotientsWithSecrets pk (Bytes 1 # qs) (map Bytes ss) = Ok True
           \<and> VerifyQuotients pk (Bytes 1 # qs)
                (map (\<lambda>s. Bytes (s ^ pub_E pk mod pub_N pk)) ss) = Ok True"
proof -
  from ne obtain s0 rest where ss: "ss = s0 # rest" by (cases ss) auto
  with ok have s0: "0 < s0" "s0 < pub_N pk" "coprime s0 (pub_N pk)"
    and rest: "\<forall>s\<in>set rest. 0 < s \<and> s < pub_N pk \<and> coprime s (pub_N pk)" by auto
  have N: "1 < pub_N pk" "0 < pub_N pk" using s0 by auto
  from quotients_loop_linked [OF c N(1) s0(1) s0(3) rest] obtain qs
    where qs: "quotients_loop env pk (Bytes s0) (map Bytes rest) = Ok (map Bytes qs)"
      and link: "linked (pub_N pk) s0 rest qs" by blast
  have len: "length qs = length rest"
    using link by (induction "pub_N pk" s0 rest qs rule: linked.induct) auto
  have Q: "Quotients env pk (map Bytes ss) = Ok (Bytes 1 # map Bytes qs)"
    by (simp add: Quotients_def ss qs bind_def)
  have link': "linked (pub_N pk) (ss ! (1 - 1)) (drop 1 ss) qs"
    using link by (simp add: ss)
  have V1: "verify_secrets_loop pk (map Bytes qs) (map Bytes ss) 1 (ss ! (1 - 1)) = Ok True"
    by (rule verify_secrets_loop_linked [OF N(2) link'])
  have "VerifyQuotientsWithSecrets pk (Bytes 1 # map Bytes qs) (map Bytes ss) = Ok True"
    using V1 s0 N
    by (simp add: VerifyQuotientsWithSecrets_def ss index_def bind_def SetBytes_Bytes bigMod_def)
  moreover have "VerifyQuotients pk (Bytes 1 # map Bytes qs)
      (map (\<lambda>s. Bytes (s ^ pub_E pk mod pub_N pk)) ss) = Ok True"
    using verify_puzzles_loop_linked [OF N(2) link'] by (simp add: VerifyQuotients_def)
  ultimately show ?thesis using Q len by (auto simp: ss)
qed

lemma toyEnv_gcd_contract: "gcd_contract toyEnv"
proof -
  have "gcd a b = int (gcd (nat a) (nat b))" if "0 < a" "0 < b" for a b :: int
    using that by (simp add: gcd_int_def)
  moreover have "a * fst (bezw (nat a) (nat b)) + b * snd (bezw (nat a) (nat b))
      = int (gcd (nat a) (nat b))" if "0 < a" "0 < b" for a b :: int
    using bezw_aux [of "nat a" "nat b"] that by (simp add: mult.commute)
  ultimately show ?thesis
    by (simp add: gcd_contract_def toyEnv_def case_prod_beta)
qed

theorem quotients_verify_witness:
  "gcd_contract toyEnv \<and> [7, 2, 13] \<noteq> ([] :: int list)
   \<and> list_all (\<lambda>s. 0 < s \<and> s < pub_N (PublicKey toyPuzzleKey) \<and> coprime s (pub_N (PublicKey toyPuzzleKey))) [7, 2, 13]
   \<and> (\<exists>qs. Quotients toyEnv (PublicKey toyPuzzleKey) (map Bytes [7, 2, 13]) = Ok (Bytes 1 # qs)
           \<and> length qs = length [7 :: int, 2, 13] - 1
           \<and> VerifyQuotientsWithSecrets (PublicKey toyPuzzleKey) (Bytes 1 # qs) (map Bytes [7, 2, 13]) = Ok True
           \<and> VerifyQuotients (PublicKey toyPuzzleKey) (Bytes 1 # qs)
                (map (\<lambda>s. Bytes (s ^ pub_E (PublicKey toyPuzzleKey) mod pub_N (PublicKey toyPuzzleKey))) [7, 2, 13]) = Ok True)"
proof -
  have N: "pub_N (PublicKey toyPuzzleKey) = 165"
    by (simp add: PublicKey_def toyPuzzleKey_def toyKey_def)
  have co: "coprime (7 :: int) 165" "coprime (2 :: int) 165" "coprime (13 :: int) 165"
    by (simp_all add: coprime_iff_gcd_eq_1) code_simp+
  have ok: "\<forall>s\<in>set [7, 2, 13]. 0 < s \<and> s < pub_N (PublicKey toyPuzzleKey) \<and> coprime s (pub_N (PublicKey toyPuzzleKey))"
    using co by (simp add: N)
  from quotients_verify [OF toyEnv_gcd_contract _ ok] toyEnv_gcd_contract ok
  show ?thesis by (simp add: list_all_iff)
qed

subsection \<open>Solving a puzzle\<close>

text \<open>
  Fermat's little theorem for the primality test above, from the binomial theorem;
  then exponents modulo \<open>p - 1\<close>, and the Chinese remainder theorem for distinct primes.
\<close>

lemma is_prime_dvd:
  assumes "is_prime p" "d dvd p"
  shows "d = 1 \<or> d = p"
proof (rule ccontr)
  assume n: "\<not> (d = 1 \<or> d = p)"
  from assms have p: "1 < p" and no: "\<And>d. 2 \<le> d \<Longrightarrow> d < p \<Longrightarrow> \<not> d dvd p"
    by (auto simp: is_prime_def)
  from assms(2) p have "d \<noteq> 0" by (cases "d = 0") auto
  moreover from assms(2) p have "d \<le> p" by (auto intro: dvd_imp_le)
  ultimately have "d \<le> p" "d \<noteq> 0" by auto
  with n have "2 \<le> d" "d < p" by auto
  from no [OF this] assms(2) show False by simp
qed

lemma is_prime_coprime:
  assumes "is_prime p" "\<not> p dvd a"
  shows "coprime p a"
proof -
  have "gcd p a dvd p" by simp
  from is_prime_dvd [OF assms(1) this] have "gcd p a = 1 \<or> gcd p a = p" .
  moreover have "gcd p a \<noteq> p"
  proof
    assume "gcd p a = p"
    then have "p dvd a" by (metis gcd_dvd2)
    with assms(2) show False by simp
  qed
  ultimately show ?thesis by (simp add: coprime_iff_gcd_eq_1)
qed

lemma is_prime_dvd_mult:
  assumes "is_prime p" "p dvd a * b"
  shows "p dvd a \<or> p dvd b"
proof (cases "p dvd a")
  case False
  from is_prime_coprime [OF assms(1) False] have "coprime p a" .
  with assms(2) have "p dvd b" by (simp add: coprime_dvd_mult_right_iff)
  then show ?thesis ..
qed simp

lemma is_prime_dvd_binomial:
  assumes p: "is_prime p" and k: "0 < k" "k < p"
  shows "p dvd (p choose k)"
proof -
  have "p dvd k * (p choose k)"
    by (simp add: times_binomial_minus1_eq [OF k(1)])
  from is_prime_dvd_mult [OF p this] have "p dvd k \<or> p dvd (p choose k)" .
  moreover have "\<not> p dvd k" using k by (auto dest: dvd_imp_le)
  ultimately show ?thesis by simp
qed

lemma freshman:
  fixes a :: nat
  assumes p: "is_prime p"
  shows "((a + 1) ^ p) mod p = (a ^ p + 1) mod p"
proof -
  from p have p1: "1 < p" by (simp add: is_prime_def)
  have split: "{..p} = insert 0 (insert p {1..<p})" using p1 by auto
  have "(a + 1) ^ p = (\<Sum>k\<le>p. (p choose k) * a ^ k)"
    using binomial [of a 1 p] by simp
  also have "\<dots> = 1 + (a ^ p + (\<Sum>k\<in>{1..<p}. (p choose k) * a ^ k))"
    unfolding split using p1 by (subst sum.insert; simp)+
  finally have eq: "(a + 1) ^ p = (a ^ p + 1) + (\<Sum>k\<in>{1..<p}. (p choose k) * a ^ k)"
    by simp
  have "p dvd (\<Sum>k\<in>{1..<p}. (p choose k) * a ^ k)"
    by (rule dvd_sum) (simp add: is_prime_dvd_binomial [OF p])
  then show ?thesis unfolding eq by (metis mod_add_self2 dvd_eq_mod_eq_0 mod_add_right_eq add.right_neutral)
qed

lemma fermat_nat:
  fixes a :: nat
  assumes p: "is_prime p"
  shows "a ^ p mod p = a mod p"
proof (induction a)
  case 0
  from p have "0 < p" by (simp add: is_prime_def)
  then show ?case by (simp add: power_0_left)
next
  case (Suc a)
  have "(Suc a) ^ p mod p = (a ^ p + 1) mod p"
    using freshman [OF p, of a] by simp
  also have "\<dots> = (a ^ p mod p + 1) mod p" by (simp add: mod_Suc_eq)
  also have "\<dots> = (a mod p + 1) mod p" by (simp add: Suc.IH)
  also have "\<dots> = Suc a mod p" by (simp add: mod_Suc_eq)
  finally show ?case .
qed


lemma fermat_int:
  assumes p: "is_prime p"
  shows "(x :: int) ^ p mod int p = x mod int p"
proof -
  from p have p0: "0 < p" by (simp add: is_prime_def)
  define a where "a = nat (x mod int p)"
  have a: "x mod int p = int a" using p0 by (simp add: a_def)
  have "x ^ p mod int p = (x mod int p) ^ p mod int p" by (simp add: power_mod)
  also have "\<dots> = int (a ^ p mod p)" by (simp add: a zmod_int)
  also have "\<dots> = int (a mod p)" by (simp add: fermat_nat [OF p])
  also have "\<dots> = x mod int p" by (simp add: zmod_int a [symmetric])
  finally show ?thesis .
qed

lemma is_prime_coprime_int:
  assumes p: "is_prime p" and x: "\<not> int p dvd x"
  shows "coprime (int p) x"
proof -
  have "\<not> p dvd nat \<bar>x\<bar>"
    using x by (metis int_dvd_int_iff dvd_abs_iff int_nat_eq abs_ge_zero)
  from is_prime_coprime [OF p this] have "coprime (int p) (int (nat \<bar>x\<bar>))"
    by (simp only: coprime_int_iff)
  then show ?thesis by simp
qed

lemma fermat_unit:
  assumes p: "is_prime p" and x: "\<not> int p dvd x"
  shows "(x :: int) ^ (p - 1) mod int p = 1"
proof -
  from p have p1: "1 < p" by (simp add: is_prime_def)
  have "int p dvd x ^ p - x"
    using fermat_int [OF p, of x] by (simp add: mod_eq_dvd_iff)
  also have "x ^ p - x = (x ^ (p - 1) - 1) * x"
    using p1 by (cases p) (simp_all add: algebra_simps)
  finally have "int p dvd (x ^ (p - 1) - 1) * x" .
  with is_prime_coprime_int [OF p x] have "int p dvd x ^ (p - 1) - 1"
    by (simp add: coprime_dvd_mult_left_iff)
  then have "x ^ (p - 1) mod int p = 1 mod int p"
    by (simp add: mod_eq_dvd_iff)
  then show ?thesis using p1 by simp
qed

lemma power_mod_reduce:
  assumes p: "is_prime p" and x: "\<not> int p dvd x"
  shows "(x :: int) ^ k mod int p = x ^ (k mod (p - 1)) mod int p"
proof -
  have "x ^ k = x ^ (k mod (p - 1) + (p - 1) * (k div (p - 1)))" by simp
  also have "\<dots> = x ^ (k mod (p - 1)) * (x ^ (p - 1)) ^ (k div (p - 1))"
    by (simp only: power_add power_mult)
  finally have "x ^ k mod int p = (x ^ (k mod (p - 1)) * ((x ^ (p - 1) mod int p) ^ (k div (p - 1)) mod int p)) mod int p"
    by (simp add: power_mod mod_mult_right_eq)
  also have "\<dots> = x ^ (k mod (p - 1)) mod int p"
    using fermat_unit [OF p x] p by (simp add: is_prime_def)
  finally show ?thesis .
qed

lemma power_mod_cong_exp:
  assumes p: "is_prime p" and k: "k mod (p - 1) = k' mod (p - 1)" "0 < k" "0 < k'"
  shows "(x :: int) ^ k mod int p = x ^ k' mod int p"
proof (cases "int p dvd x")
  case True
  moreover have "x dvd x ^ k" "x dvd x ^ k'" using k by (auto intro: dvd_power)
  ultimately have "int p dvd x ^ k" "int p dvd x ^ k'" by (auto intro: dvd_trans)
  then show ?thesis by simp
next
  case False
  show ?thesis
    unfolding power_mod_reduce [OF p False, of k] power_mod_reduce [OF p False, of k'] k(1) ..
qed

lemma rsa_prime:
  assumes p: "is_prime p" "2 < p" and ed: "(e * d) mod (p - 1) = 1"
  shows "(x :: int) ^ (e * d) mod int p = x mod int p"
proof -
  have "0 < e * d" using ed by (cases "e * d = 0") auto
  moreover have "(e * d) mod (p - 1) = 1 mod (p - 1)" using ed p(2) by simp
  ultimately have "x ^ (e * d) mod int p = x ^ 1 mod int p"
    by (intro power_mod_cong_exp [OF p(1)]) auto
  then show ?thesis by simp
qed

lemma is_prime_distinct_coprime:
  assumes "is_prime p" "is_prime q" "p \<noteq> q"
  shows "coprime (int p) (int q)"
proof -
  have "\<not> p dvd q"
  proof
    assume "p dvd q"
    from is_prime_dvd [OF assms(2) this] assms(1,3) show False by (auto simp: is_prime_def)
  qed
  from is_prime_coprime [OF assms(1) this] show ?thesis by (simp only: coprime_int_iff)
qed

lemma crt_unique:
  fixes ps :: "int list"
  assumes "\<forall>p\<in>set ps. 0 < p \<and> is_prime (nat p)" "distinct ps" "\<forall>p\<in>set ps. x mod p = y mod p"
  shows "x mod prod_list ps = y mod prod_list ps"
proof -
  have "prod_list ps dvd x - y"
    using assms
  proof (induction ps)
    case Nil
    show ?case by simp
  next
    case (Cons p ps)
    then have IH: "prod_list ps dvd x - y" by simp
    from Cons.prems have pd: "p dvd x - y" by (simp add: mod_eq_dvd_iff)
    have "coprime p (prod_list ps)"
    proof (rule prod_list_coprime_right)
      fix q assume q: "q \<in> set ps"
      with Cons.prems have pq: "0 < p" "0 < q" "p \<noteq> q" by auto
      then have "nat p \<noteq> nat q" by (simp add: eq_nat_nat_iff)
      with q pq Cons.prems have "is_prime (nat p)" "is_prime (nat q)" "nat p \<noteq> nat q" "0 < p" "0 < q"
        by auto
      from is_prime_distinct_coprime [OF this(1,2,3)] this(4,5) show "coprime p q" by simp
    qed
    from divides_mult [OF pd IH this] show ?case by simp
  qed
  then show ?thesis by (simp add: mod_eq_dvd_iff)
qed


lemma exp_reduce:
  assumes p: "is_prime p" "2 < p" and ed: "(e * d) mod (p - 1) = 1"
  shows "(c :: int) ^ (d mod (p - 1)) mod int p = c ^ d mod int p"
proof -
  have nz: "d mod (p - 1) \<noteq> 0"
  proof
    assume "d mod (p - 1) = 0"
    then have "(e * d) mod (p - 1) = 0" by (simp add: mod_mult_right_eq [symmetric] del: mod_mult_right_eq)
    with ed show False by simp
  qed
  then have "0 < d mod (p - 1)" "0 < d" by (auto intro: gr0I)
  then show ?thesis
    by (intro power_mod_cong_exp [OF p(1)]) auto
qed

lemma garner:
  fixes d q m2 p qi :: int
  assumes "(qi * q) mod p = 1"
  shows "(((d * qi) mod p) * q + m2) mod p = (d + m2) mod p"
proof -
  have "(((d * qi) mod p) * q + m2) mod p = (d * (qi * q) + m2) mod p"
    by (metis mod_add_left_eq mod_mult_left_eq mult.assoc)
  also have "\<dots> = (d * ((qi * q) mod p) + m2) mod p"
    by (metis mod_add_left_eq mod_mult_right_eq)
  also have "\<dots> = (d + m2) mod p" by (simp add: assms)
  finally show ?thesis .
qed

lemma crt_loop_correct:
  assumes ps: "list_all (\<lambda>p. 2 < p \<and> is_prime (nat p)) ps"
    and ed: "list_all (\<lambda>p. (e * d) mod (nat p - 1) = 1) ps"
  shows "crt_values_ok d ps i vs \<Longrightarrow> \<forall>j<2 + i. m mod ps ! j = c ^ d mod ps ! j \<Longrightarrow>
     \<exists>m'. crt_loop ps c vs i m = Ok m' \<and> (\<forall>j<length ps. m' mod ps ! j = c ^ d mod ps ! j)"
proof (induction vs arbitrary: i m)
  case Nil
  then show ?case by simp
next
  case (Cons v vs)
  define prime where "prime = ps ! (2 + i)"
  from Cons.prems(1) have i: "2 + i < length ps"
    and ex: "crt_Exp v = d mod (nat prime - 1)"
    and R: "crt_R v = prod_list (take (2 + i) ps)"
    and co: "(crt_Coeff v * crt_R v) mod prime = 1"
    and rest: "crt_values_ok d ps (Suc i) vs" by (auto simp: prime_def)
  from ps ed i have pr: "2 < prime" "is_prime (nat prime)" "(e * d) mod (nat prime - 1) = 1"
    by (auto simp: list_all_length prime_def)
  then have ip: "int (nat prime) = prime" "2 < nat prime" by auto
  have X: "c ^ crt_Exp v mod prime = c ^ d mod prime"
    using exp_reduce [OF pr(2) ip(2) pr(3), of c] by (simp only: ex ip(1))
  define h where "h = ((c ^ crt_Exp v mod prime - m) * crt_Coeff v) mod prime"
  have "0 \<le> h" unfolding h_def using pr(1) by (intro pos_mod_sign) simp
  then have h0: "\<not> h < 0" by simp
  define m' where "m' = m + h * crt_R v"
  have top: "m' mod prime = c ^ d mod prime"
  proof -
    have "m' mod prime = (h * crt_R v + m) mod prime" by (simp add: m'_def add.commute)
    also have "\<dots> = ((c ^ crt_Exp v mod prime - m) + m) mod prime"
      unfolding h_def by (rule garner [OF co])
    also have "\<dots> = c ^ d mod prime" using X by simp
    finally show ?thesis .
  qed
  have low: "m' mod ps ! j = c ^ d mod ps ! j" if j: "j < 2 + i" for j
  proof -
    have "ps ! j \<in> set (take (2 + i) ps)"
      using j i by (auto simp: in_set_conv_nth intro!: exI [of _ j])
    then have "ps ! j dvd crt_R v" unfolding R by (rule prod_list_dvd)
    then obtain k where k: "crt_R v = ps ! j * k" by (elim dvdE)
    have "m' = m + ps ! j * (h * k)" by (simp add: m'_def k)
    then have "m' mod ps ! j = m mod ps ! j" by simp
    with Cons.prems(2) j show ?thesis by simp
  qed
  have inv: "\<forall>j<2 + Suc i. m' mod ps ! j = c ^ d mod ps ! j"
  proof (intro allI impI)
    fix j assume "j < 2 + Suc i"
    then have "j < 2 + i \<or> j = 2 + i" by auto
    then show "m' mod ps ! j = c ^ d mod ps ! j" using low top by (auto simp: prime_def)
  qed
  from Cons.IH [OF rest inv] obtain r where r: "crt_loop ps c vs (Suc i) m' = Ok r"
    "\<forall>j<length ps. r mod ps ! j = c ^ d mod ps ! j" by blast
  have idx: "index ps (2 + int i) = Ok prime"
    using i by (simp add: index_def prime_def nat_add_distrib)
  have be: "bigExp c (crt_Exp v) prime = c ^ crt_Exp v mod prime"
    using pr(1) by (simp add: bigExp_def)
  have bm: "bigMod x prime = Ok (x mod prime)" for x
    using pr(1) by (simp add: bigMod_def)
  have "crt_loop ps c (v # vs) i m = crt_loop ps c vs (Suc i) m'"
    using h0 by (simp add: idx be bm bind_def Let_def m'_def h_def [symmetric])
  with r show ?case by simp
qed


lemma prod_list_pos_int:
  fixes ps :: "int list"
  shows "\<forall>p\<in>set ps. 0 < p \<Longrightarrow> 0 < prod_list ps"
  by (induction ps) auto

lemma rsa_mod_N:
  assumes ps: "list_all (\<lambda>p. 2 < p \<and> is_prime (nat p)) ps" and dist: "distinct ps"
    and ed: "list_all (\<lambda>p. (e * d) mod (nat p - 1) = 1) ps"
  shows "(x :: int) ^ (e * d) mod prod_list ps = x mod prod_list ps"
proof (rule crt_unique [OF _ dist])
  show "\<forall>p\<in>set ps. 0 < p \<and> is_prime (nat p)" using ps by (auto simp: list_all_iff)
  show "\<forall>p\<in>set ps. x ^ (e * d) mod p = x mod p"
  proof
    fix p assume "p \<in> set ps"
    with ps ed have p: "2 < p" "is_prime (nat p)" "(e * d) mod (nat p - 1) = 1"
      by (auto simp: list_all_iff)
    then have "int (nat p) = p" "2 < nat p" by auto
    with rsa_prime [OF p(2) _ p(3), of x] show "x ^ (e * d) mod p = x mod p" by simp
  qed
qed

lemma crt_result:
  assumes ps: "list_all (\<lambda>p. 2 < p \<and> is_prime (nat p)) ps" and dist: "distinct ps"
    and m: "\<forall>j<length ps. m mod ps ! j = x mod ps ! j"
  shows "(m :: int) mod prod_list ps = x mod prod_list ps"
proof (rule crt_unique [OF _ dist])
  show "\<forall>p\<in>set ps. 0 < p \<and> is_prime (nat p)" using ps by (auto simp: list_all_iff)
  show "\<forall>p\<in>set ps. m mod p = x mod p" using m by (auto simp: in_set_conv_nth)
qed


lemma decrypt_inner_crt:
  fixes c qinv :: int and ps :: "int list" and d dp dq e :: nat
  assumes ps: "list_all (\<lambda>p. 2 < p \<and> is_prime (nat p)) ps" and dist: "distinct ps"
    and ed: "list_all (\<lambda>p. (e * d) mod (nat p - 1) = 1) ps" and len: "2 \<le> length ps"
    and dp: "dp = d mod (nat (ps ! 0) - 1)" and dq: "dq = d mod (nat (ps ! 1) - 1)"
    and qi: "(qinv * (ps ! 1)) mod (ps ! 0) = 1"
    and vs: "crt_values_ok d ps 0 vs"
  defines "m1 \<equiv> c ^ dp mod ps ! 0" and "m2 \<equiv> c ^ dq mod ps ! 1"
  defines "d0 \<equiv> (if m1 - m2 < 0 then m1 - m2 + ps ! 0 else m1 - m2)"
  defines "m0 \<equiv> ((d0 * qinv) mod ps ! 0) * ps ! 1 + m2"
  shows "\<exists>m'. crt_loop ps c vs 0 m0 = Ok m' \<and> m' mod prod_list ps = c ^ d mod prod_list ps"
proof -
  have l0: "0 < length ps" and l1: "1 < length ps" using len by auto
  from ps ed have all: "\<And>n. n < length ps \<Longrightarrow>
      2 < ps ! n \<and> is_prime (nat (ps ! n)) \<and> (e * d) mod (nat (ps ! n) - 1) = 1"
    by (simp add: list_all_length)
  from all [OF l0] have p: "2 < ps ! 0" "is_prime (nat (ps ! 0))" "(e * d) mod (nat (ps ! 0) - 1) = 1"
    by auto
  from all [OF l1] have q: "2 < ps ! 1" "is_prime (nat (ps ! 1))" "(e * d) mod (nat (ps ! 1) - 1) = 1"
    by auto
  have ip: "int (nat (ps ! 0)) = ps ! 0" "2 < nat (ps ! 0)" using p by auto
  have iq: "int (nat (ps ! 1)) = ps ! 1" "2 < nat (ps ! 1)" using q by auto
  have M1: "m1 mod ps ! 0 = c ^ d mod ps ! 0"
    using exp_reduce [OF p(2) ip(2) p(3), of c] by (simp only: m1_def dp ip(1) mod_mod_trivial)
  have M2: "m2 mod ps ! 1 = c ^ d mod ps ! 1"
    using exp_reduce [OF q(2) iq(2) q(3), of c] by (simp only: m2_def dq iq(1) mod_mod_trivial)
  have "m0 mod ps ! 0 = (d0 + m2) mod ps ! 0"
    unfolding m0_def by (rule garner [OF qi])
  also have "\<dots> = m1 mod ps ! 0" by (simp add: d0_def)
  finally have A: "m0 mod ps ! 0 = c ^ d mod ps ! 0" using M1 by simp
  have "m0 mod ps ! 1 = m2 mod ps ! 1" by (simp add: m0_def)
  then have B: "m0 mod ps ! 1 = c ^ d mod ps ! 1" using M2 by simp
  have pre: "\<forall>j<2 + 0. m0 mod ps ! j = c ^ d mod ps ! j"
  proof (intro allI impI)
    fix j :: nat assume "j < 2 + 0"
    then have "j = 0 \<or> j = 1" by auto
    then show "m0 mod ps ! j = c ^ d mod ps ! j" using A B by auto
  qed
  from crt_loop_correct [OF ps ed vs pre] obtain m' where m': "crt_loop ps c vs 0 m0 = Ok m'"
    "\<forall>j<length ps. m' mod ps ! j = c ^ d mod ps ! j" by blast
  from crt_result [OF ps dist m'(2)] m'(1) show ?thesis by blast
qed


lemma decryptPuzzle_correct:
  assumes v: "valid_key pk" and s: "0 \<le> s" "s < rsa_N (rsakey pk)"
  shows "decryptPuzzle pk (s ^ rsa_E (rsakey pk) mod rsa_N (rsakey pk)) = Ok s"
proof -
  define priv where "priv = rsakey pk"
  define N where "N = rsa_N priv"
  define E where "E = rsa_E priv"
  define D where "D = rsa_D priv"
  define ps where "ps = Primes priv"
  define r where "r = pk_factor pk"
  define ri where "ri = pk_inverse pk"
  define c where "c = s ^ E mod N"
  define c1 where "c1 = (c * (r ^ E mod N)) mod N"
  from v have len: "2 \<le> length ps"
    and pr: "list_all (\<lambda>p. 2 < p \<and> is_prime (nat p)) ps"
    and dist: "distinct ps"
    and Np: "N = prod_list ps"
    and ed: "list_all (\<lambda>p. (E * D) mod (nat p - 1) = 1) ps"
    and pre: "precomputed_ok priv"
    and inv: "(r * ri) mod N = 1"
    by (auto simp add: valid_key_def Let_def priv_def N_def E_def D_def ps_def r_def ri_def)
  have N0: "0 < N" unfolding Np using pr by (intro prod_list_pos_int) (auto simp: list_all_iff)
  have "s ^ E mod N < N" using N0 by (rule pos_mod_bound)
  then have cN: "\<not> c > N" by (simp add: c_def)
  have c1: "c1 = (s * r) ^ E mod N"
    by (simp add: c1_def c_def mod_mult_eq power_mult_distrib)
  have "c1 ^ D mod N = ((s * r) ^ E) ^ D mod N" by (simp add: c1 power_mod)
  also have "\<dots> = (s * r) ^ (E * D) mod N" by (simp add: power_mult)
  also have "\<dots> = (s * r) mod N" unfolding Np by (rule rsa_mod_N [OF pr dist ed])
  finally have dec: "c1 ^ D mod N = (s * r) mod N" .
  have fin: "(m * ri) mod N = s" if "m mod N = c1 ^ D mod N" for m
  proof -
    have "(m * ri) mod N = ((m mod N) * ri) mod N" by (simp add: mod_mult_left_eq)
    also have "\<dots> = (s * r * ri) mod N" by (simp add: that dec mod_mult_left_eq)
    also have "\<dots> = (s * ((r * ri) mod N)) mod N"
      by (simp add: mult.assoc mod_mult_right_eq)
    also have "\<dots> = s mod N" by (simp add: inv)
    also have "\<dots> = s" using s by (simp add: N_def priv_def)
    finally show ?thesis .
  qed
  show ?thesis
  proof (cases "Precomputed priv")
    case None
    have "decryptPuzzle pk c = Ok ((c1 ^ D mod N * ri) mod N)"
      using cN N0
      by (simp add: decryptPuzzle_def Let_def bind_def bigExp_def bigMod_def None [unfolded priv_def]
          c1_def N_def E_def D_def r_def ri_def priv_def)
    also have "(c1 ^ D mod N * ri) mod N = s" by (rule fin) simp
    finally show ?thesis by (simp add: c_def E_def N_def priv_def)
  next
    case (Some pv)
    define m1 where "m1 = c1 ^ Dp pv mod ps ! 0"
    define m2 where "m2 = c1 ^ Dq pv mod ps ! 1"
    define d0 where "d0 = (if m1 - m2 < 0 then m1 - m2 + ps ! 0 else m1 - m2)"
    define m0 where "m0 = ((d0 * Qinv pv) mod ps ! 0) * ps ! 1 + m2"
    from pre Some have dp: "Dp pv = D mod (nat (ps ! 0) - 1)"
      and dq: "Dq pv = D mod (nat (ps ! 1) - 1)"
      and qi: "(Qinv pv * (ps ! 1)) mod (ps ! 0) = 1"
      and vs: "crt_values_ok D ps 0 (CRTValues pv)"
      by (simp_all add: precomputed_ok_def D_def ps_def)
    from decrypt_inner_crt [OF pr dist ed len dp dq qi vs, of c1]
    obtain m' where m': "crt_loop ps c1 (CRTValues pv) 0 m0 = Ok m'"
      "m' mod N = c1 ^ D mod N"
      unfolding m0_def d0_def m1_def m2_def Np by blast
    have l0: "0 < length ps" "Suc 0 < length ps" using len by auto
    from pr l0 have pq: "0 < ps ! 0" "0 < ps ! Suc 0"
      by (auto simp: list_all_length)
    have "decryptPuzzle pk c = bind (crt_loop ps c1 (CRTValues pv) 0 m0) (\<lambda>m. bigMod (m * ri) N)"
      using cN N0 l0 pq
      by (simp add: decryptPuzzle_def Let_def bind_def index_def bigExp_def bigMod_def
          Some [unfolded priv_def] m0_def d0_def m1_def m2_def
          c1_def N_def E_def D_def r_def ri_def ps_def priv_def)
    also have "\<dots> = Ok ((m' * ri) mod N)" using N0 by (simp add: m'(1) bind_def bigMod_def)
    also have "(m' * ri) mod N = s" by (rule fin [OF m'(2)])
    finally show ?thesis by (simp add: c_def E_def N_def priv_def)
  qed
qed

text \<open>
  Claim C6.  For every valid puzzle key and every secret \<open>s\<close> in \<open>[0, N)\<close>, on the
  puzzle that is the encoding of \<open>s^e mod N\<close>: \<^verbatim>\<open>SolvePuzzle\<close> succeeds and returns the
  canonical encoding of \<open>s\<close> (with and without the precomputed CRT values; the blinding
  factor and its inverse cancel), and \<^verbatim>\<open>ValidatePuzzle\<close> returns true for \<open>s\<close>.
  \<^verbatim>\<open>ValidatePuzzle\<close> returns false for every candidate secret that is at least \<open>N\<close>.
\<close>

theorem SolvePuzzle_round_trip:
  assumes v: "valid_key pk" and s: "0 \<le> s" "s < rsa_N (rsakey pk)"
  shows "SolvePuzzle pk (Bytes (s ^ rsa_E (rsakey pk) mod rsa_N (rsakey pk))) = Ok (Bytes s)
     \<and> ValidatePuzzle (PublicKey pk) (Bytes (s ^ rsa_E (rsakey pk) mod rsa_N (rsakey pk))) (Bytes s)
     \<and> (\<forall>puzzle secret. rsa_N (rsakey pk) \<le> SetBytes secret \<longrightarrow>
            \<not> ValidatePuzzle (PublicKey pk) puzzle secret)"
proof -
  let ?N = "rsa_N (rsakey pk)" and ?E = "rsa_E (rsakey pk)"
  from s have N0: "0 < ?N" by simp
  then have z0: "0 \<le> s ^ ?E mod ?N" by simp
  have cp: "createPuzzle (PublicKey pk) s = Bytes (s ^ ?E mod ?N)"
    using N0 by (simp add: createPuzzle_def PublicKey_def bigExp_def)
  have "SolvePuzzle pk (Bytes (s ^ ?E mod ?N)) = Ok (Bytes s)"
    by (simp add: SolvePuzzle_def SetBytes_Bytes [OF z0] decryptPuzzle_correct [OF v s]
        bind_def cp)
  moreover have "ValidatePuzzle (PublicKey pk) (Bytes (s ^ ?E mod ?N)) (Bytes s)"
    using s by (simp add: ValidatePuzzle_def SetBytes_Bytes cp) (simp add: PublicKey_def)
  moreover have "\<forall>puzzle secret. ?N \<le> SetBytes secret \<longrightarrow>
            \<not> ValidatePuzzle (PublicKey pk) puzzle secret"
    by (simp add: ValidatePuzzle_def PublicKey_def)
  ultimately show ?thesis by blast
qed

lemma toy_valid_key: "valid_key toyPuzzleKey"
  by code_simp

theorem SolvePuzzle_round_trip_witness:
  "valid_key toyPuzzleKey \<and> (0 :: int) \<le> 33 \<and> 33 < rsa_N (rsakey toyPuzzleKey)
   \<and> SolvePuzzle toyPuzzleKey
        (Bytes (33 ^ rsa_E (rsakey toyPuzzleKey) mod rsa_N (rsakey toyPuzzleKey))) = Ok (Bytes 33)
   \<and> ValidatePuzzle (PublicKey toyPuzzleKey)
        (Bytes (33 ^ rsa_E (rsakey toyPuzzleKey) mod rsa_N (rsakey toyPuzzleKey))) (Bytes 33)
   \<and> \<not> ValidatePuzzle (PublicKey toyPuzzleKey)
        (Bytes (33 ^ rsa_E (rsakey toyPuzzleKey) mod rsa_N (rsakey toyPuzzleKey))) (Bytes 198)"
proof -
  have N: "rsa_N (rsakey toyPuzzleKey) = 165" by (simp add: toyPuzzleKey_def toyKey_def)
  have s: "(0 :: int) \<le> 33" "33 < rsa_N (rsakey toyPuzzleKey)" by (simp_all add: N)
  have big: "rsa_N (rsakey toyPuzzleKey) \<le> SetBytes (Bytes 198)"
    by (simp add: SetBytes_Bytes N)
  from SolvePuzzle_round_trip [OF toy_valid_key s] toy_valid_key s big
  show ?thesis by blast
qed

end
